(* ===== verification/Prelude.thy ===== *)
theory Prelude
  imports Main "HOL-Library.Word" "HOL-Library.Sublist"
begin

text \<open>
  Shared vocabulary of the development: machine integers, the result type of fallible
  code (\<open>Inl\<close> is Rust's \<open>Err\<close>, \<open>Inr\<close> its \<open>Ok\<close>), the two standard iterator
  adapters the program relies on (\<open>position\<close>, \<open>filter_map\<close>) and the lemma
  collections the component theories add to.
\<close>

named_theorems api_simps \<open>defining equations of the library interfaces' reference instances\<close>

type_synonym u8 = "8 word"
type_synonym u16 = "16 word"
type_synonym u32 = "32 word"
type_synonym u64 = "64 word"

type_synonym bytes = "u8 list"

abbreviation Err :: "'e \<Rightarrow> 'e + 'a" where "Err \<equiv> Inl"
abbreviation Ok :: "'a \<Rightarrow> 'e + 'a" where "Ok \<equiv> Inr"

definition i64_max :: int where "i64_max = 2 ^ 63 - 1"
definition i64_min :: int where "i64_min = - (2 ^ 63)"

lemma i64_bounds [simp]: "0 < i64_max" "i64_min < 0"
  by (simp_all add: i64_max_def i64_min_def)

subsection \<open>Results\<close>

fun is_ok :: "'e + 'a \<Rightarrow> bool" where
  "is_ok (Inl _) = False"
| "is_ok (Inr _) = True"

text \<open>\<open>Result::ok\<close>.\<close>

fun ok_of :: "'e + 'a \<Rightarrow> 'a option" where
  "ok_of (Inl _) = None"
| "ok_of (Inr x) = Some x"

text \<open>\<open>Result::map_err\<close> (and \<open>with_context\<close>).\<close>

fun map_err :: "('e \<Rightarrow> 'f) \<Rightarrow> 'e + 'a \<Rightarrow> 'f + 'a" where
  "map_err g (Inl e) = Inl (g e)"
| "map_err g (Inr x) = Inr x"

text \<open>\<open>Result::and_then\<close>, the question mark operator.\<close>

definition and_then :: "'e + 'a \<Rightarrow> ('a \<Rightarrow> 'e + 'b) \<Rightarrow> 'e + 'b" where
  "and_then r g = (case r of Inl err \<Rightarrow> Err err | Inr ok \<Rightarrow> g ok)"

lemma and_then_simps [simp]: "and_then (Inl err) g = Inl err" "and_then (Inr ok) g = g ok"
  by (simp_all add: and_then_def)

lemma is_ok_iff: "is_ok r \<longleftrightarrow> (\<exists>x. r = Inr x)"
  by (cases r) auto

lemma map_err_Inr_iff [simp]: "map_err g r = Inr x \<longleftrightarrow> r = Inr x"
  by (cases r) auto

lemma map_err_Inl_iff [simp]: "map_err g r = Inl y \<longleftrightarrow> (\<exists>e. r = Inl e \<and> y = g e)"
  by (cases r) auto

subsection \<open>\<open>Iterator::position\<close>: index of the first element that satisfies a predicate\<close>

fun position :: "('a \<Rightarrow> bool) \<Rightarrow> 'a list \<Rightarrow> nat option" where
  "position P [] = None"
| "position P (x # xs) = (if P x then Some 0 else map_option Suc (position P xs))"

lemma position_None_iff [simp]: "position P xs = None \<longleftrightarrow> (\<forall>x\<in>set xs. \<not> P x)"
  by (induction xs) auto

lemma position_SomeD:
  "position P xs = Some i \<Longrightarrow> i < length xs \<and> P (xs ! i) \<and> (\<forall>j<i. \<not> P (xs ! j))"
  by (induction xs arbitrary: i) (auto simp: less_Suc_eq_0_disj split: if_splits)

lemma position_Some_iff:
  "position P xs = Some i \<longleftrightarrow> i < length xs \<and> P (xs ! i) \<and> (\<forall>j<i. \<not> P (xs ! j))"
proof
  assume R: "i < length xs \<and> P (xs ! i) \<and> (\<forall>j<i. \<not> P (xs ! j))"
  then have "\<exists>x\<in>set xs. P x" by (metis nth_mem)
  then have "position P xs \<noteq> None" by simp
  then obtain k where k: "position P xs = Some k" by blast
  from position_SomeD [OF k] R have "k = i" by (metis linorder_neqE_nat)
  with k show "position P xs = Some i" by simp
qed (rule position_SomeD)

lemma position_Some_ex: "position P xs = Some i \<Longrightarrow> \<exists>x\<in>set xs. P x"
  using position_SomeD [of P xs i] nth_mem by blast

lemma position_map: "position P (map f xs) = position (P \<circ> f) xs"
  by (induction xs) auto

subsection \<open>\<open>Iterator::filter_map\<close>\<close>

fun filter_map :: "('a \<Rightarrow> 'b option) \<Rightarrow> 'a list \<Rightarrow> 'b list" where
  "filter_map f [] = []"
| "filter_map f (x # xs) = (case f x of None \<Rightarrow> filter_map f xs | Some y \<Rightarrow> y # filter_map f xs)"

lemma filter_map_append [simp]: "filter_map f (xs @ ys) = filter_map f xs @ filter_map f ys"
  by (induction xs) (auto split: option.splits)

lemma set_filter_map: "set (filter_map f xs) = {y. \<exists>x\<in>set xs. f x = Some y}"
  by (induction xs) (auto split: option.splits)

lemma length_filter_map_le: "length (filter_map f xs) \<le> length xs"
  by (induction xs) (auto split: option.splits)

subsection \<open>\<open>Vec::get\<close>\<close>

definition vec_get :: "'a list \<Rightarrow> nat \<Rightarrow> 'a option" where
  "vec_get xs i = (if i < length xs then Some (xs ! i) else None)"

lemma vec_get_map: "vec_get (map f xs) i = map_option f (vec_get xs i)"
  by (simp add: vec_get_def)

subsection \<open>Lists\<close>

lemma prefix_take_iff:
  assumes "length xs = length ys"
  shows "prefix (take k xs) ys \<longleftrightarrow> take k ys = take k xs"
proof
  assume "prefix (take k xs) ys"
  then obtain zs where ys: "ys = take k xs @ zs" by (auto simp: prefix_def)
  show "take k ys = take k xs"
  proof (cases "k \<le> length xs")
    case True
    then show ?thesis by (simp add: ys)
  next
    case False
    with ys assms show ?thesis by simp
  qed
next
  assume "take k ys = take k xs"
  then show "prefix (take k xs) ys" by (metis take_is_prefix)
qed

end
