(* ===== verification/Metrics.thy ===== *)
theory Metrics
  imports Prelude
begin

text \<open>
  \<open>src/metrics.rs\<close>: the four Prometheus metrics and their registration at start-up. The
  Prometheus library itself stays outside the model: the program's updates are recorded as
  a trace of calls, and a counter's value is the number of its increments in the trace.
\<close>

record metric =
  metric_name :: string
  metric_help :: string
  metric_labels :: "string list"

definition IP_BLOCKED_REQUESTS :: metric where
  "IP_BLOCKED_REQUESTS = \<lparr>metric_name = ''firehol_ip_blocked_requests'',
     metric_help = ''number of blocked ip requests'',
     metric_labels = [''file_name'', ''maintainer'', ''category'']\<rparr>"

definition IP_ALLOWED_REQUESTS :: metric where
  "IP_ALLOWED_REQUESTS = \<lparr>metric_name = ''firehol_ip_allowed_requests'',
     metric_help = ''number of allowed ip requests'', metric_labels = []\<rparr>"

definition MMDB_NODE_COUNT :: metric where
  "MMDB_NODE_COUNT = \<lparr>metric_name = ''firehol_mmdb_node_count'',
     metric_help = ''number of nodes in the loaded mmdb search tree'', metric_labels = []\<rparr>"

definition MMDB_FILE_LOADED :: metric where
  "MMDB_FILE_LOADED = \<lparr>metric_name = ''firehol_mmdb_file_loaded'',
     metric_help = ''number of successful mmdb loads'', metric_labels = [''file'']\<rparr>"

lemmas metric_defs = IP_BLOCKED_REQUESTS_def IP_ALLOWED_REQUESTS_def MMDB_NODE_COUNT_def
  MMDB_FILE_LOADED_def

lemma metrics_distinct [simp]:
  "IP_BLOCKED_REQUESTS \<noteq> IP_ALLOWED_REQUESTS" "IP_ALLOWED_REQUESTS \<noteq> IP_BLOCKED_REQUESTS"
  "IP_BLOCKED_REQUESTS \<noteq> MMDB_FILE_LOADED" "MMDB_FILE_LOADED \<noteq> IP_BLOCKED_REQUESTS"
  "IP_ALLOWED_REQUESTS \<noteq> MMDB_FILE_LOADED" "MMDB_FILE_LOADED \<noteq> IP_ALLOWED_REQUESTS"
  by (simp_all add: metric_defs)

subsection \<open>Registration\<close>

text \<open>
  \<open>LazyLock::force\<close>: the first use registers the metric with the default registry, which
  refuses a name it already has (the \<open>expect\<close> then panics: \<open>None\<close>); later uses do nothing.
\<close>

definition force :: "metric \<Rightarrow> metric list \<Rightarrow> metric list option" where
  "force m registry =
     (if m \<in> set registry then Some registry
      else if metric_name m \<in> metric_name ` set registry then None
      else Some (registry @ [m]))"

definition metrics_init :: "metric list \<Rightarrow> metric list option" where
  "metrics_init r0 =
     (case force IP_BLOCKED_REQUESTS r0 of None \<Rightarrow> None | Some r1 \<Rightarrow>
      case force IP_ALLOWED_REQUESTS r1 of None \<Rightarrow> None | Some r2 \<Rightarrow>
      case force MMDB_NODE_COUNT r2 of None \<Rightarrow> None | Some r3 \<Rightarrow>
        force MMDB_FILE_LOADED r3)"

lemma metrics_init_empty:
  "metrics_init [] =
     Some [IP_BLOCKED_REQUESTS, IP_ALLOWED_REQUESTS, MMDB_NODE_COUNT, MMDB_FILE_LOADED]"
  by (simp add: metrics_init_def force_def metric_defs)

lemma metrics_init_again: "metrics_init [] = Some r \<Longrightarrow> metrics_init r = Some r"
  by (auto simp: metrics_init_empty) (simp add: metrics_init_def force_def)

subsection \<open>Updates\<close>

datatype metric_event = Inc metric "string list" | Set_Gauge metric int

text \<open>
  \<open>with_label_values\<close> panics unless it gets one value per label; an update of a metric
  without labels passes none.
\<close>

fun event_ok :: "metric_event \<Rightarrow> bool" where
  "event_ok (Inc m vs) \<longleftrightarrow> length vs = length (metric_labels m)"
| "event_ok (Set_Gauge m v) \<longleftrightarrow> metric_labels m = []"

fun is_inc :: "metric \<Rightarrow> metric_event \<Rightarrow> bool" where
  "is_inc m (Inc m' vs) \<longleftrightarrow> m = m'"
| "is_inc m (Set_Gauge m' v) \<longleftrightarrow> False"

text \<open>The total of a counter over all its label values.\<close>

definition counter_total :: "metric \<Rightarrow> metric_event list \<Rightarrow> nat" where
  "counter_total m evs = length (filter (is_inc m) evs)"

lemma counter_total_append [simp]:
  "counter_total m (xs @ ys) = counter_total m xs + counter_total m ys"
  by (simp add: counter_total_def)

lemma counter_total_simps [simp]:
  "counter_total m [] = 0"
  "counter_total m (ev # evs) = (if is_inc m ev then 1 else 0) + counter_total m evs"
  by (simp_all add: counter_total_def)

end
