(* ===== verification/Rust_Str.thy ===== *)
theory Rust_Str
  imports Prelude
begin

text \<open>
  The methods of Rust's \<open>str\<close> that the program calls. A \<open>str\<close> is its UTF-8 byte
  sequence, here a \<open>string\<close> (one \<open>char\<close> per byte). \<open>trim\<close> removes Unicode white
  space, so the white-space code points are listed by their UTF-8 encodings.
\<close>

subsection \<open>White space\<close>

definition newline :: char where "newline = CHR 0x0A"
definition carriage_return :: char where "carriage_return = CHR 0x0D"

text \<open>
  The code points with the Unicode property \<open>White_Space\<close>: U+0009..U+000D, U+0020, U+0085,
  U+00A0, U+1680, U+2000..U+200A, U+2028, U+2029, U+202F, U+205F and U+3000.
\<close>

definition white_space :: "string list" where
  "white_space =
    [[CHR 0x20], [CHR 0x09], [CHR 0x0A], [CHR 0x0B], [CHR 0x0C], [CHR 0x0D],
     [CHR 0xC2, CHR 0x85], [CHR 0xC2, CHR 0xA0], [CHR 0xE1, CHR 0x9A, CHR 0x80],
     [CHR 0xE2, CHR 0x80, CHR 0x80], [CHR 0xE2, CHR 0x80, CHR 0x81],
     [CHR 0xE2, CHR 0x80, CHR 0x82], [CHR 0xE2, CHR 0x80, CHR 0x83],
     [CHR 0xE2, CHR 0x80, CHR 0x84], [CHR 0xE2, CHR 0x80, CHR 0x85],
     [CHR 0xE2, CHR 0x80, CHR 0x86], [CHR 0xE2, CHR 0x80, CHR 0x87],
     [CHR 0xE2, CHR 0x80, CHR 0x88], [CHR 0xE2, CHR 0x80, CHR 0x89],
     [CHR 0xE2, CHR 0x80, CHR 0x8A], [CHR 0xE2, CHR 0x80, CHR 0xA8],
     [CHR 0xE2, CHR 0x80, CHR 0xA9], [CHR 0xE2, CHR 0x80, CHR 0xAF],
     [CHR 0xE2, CHR 0x81, CHR 0x9F], [CHR 0xE3, CHR 0x80, CHR 0x80]]"

text \<open>The encoding of the list that \<open>s\<close> starts with, if any.\<close>

fun leading :: "string list \<Rightarrow> string \<Rightarrow> string option" where
  "leading [] s = None"
| "leading (e # es) s = (if e \<noteq> [] \<and> take (length e) s = e then Some e else leading es s)"

lemma leading_SomeD: "leading es s = Some e \<Longrightarrow> e \<noteq> [] \<and> e \<in> set es \<and> (\<exists>r. s = e @ r)"
  by (induction es) (auto split: if_splits, metis append_take_drop_id)

lemma leading_None_iff: "leading es s = None \<longleftrightarrow> (\<forall>e\<in>set es. e \<noteq> [] \<longrightarrow> take (length e) s \<noteq> e)"
  by (induction es) auto

text \<open>Remove leading encodings for as long as there is one.\<close>

function strip_leading :: "string list \<Rightarrow> string \<Rightarrow> string" where
  "strip_leading es s =
     (case leading es s of None \<Rightarrow> s | Some e \<Rightarrow> strip_leading es (drop (length e) s))"
  by pat_completeness auto
termination
  by (relation "measure (\<lambda>(es, s). length s)") (auto dest: leading_SomeD)

declare strip_leading.simps [simp del]

lemma leading_strip_leading [simp]: "leading es (strip_leading es s) = None"
  by (induction es s rule: strip_leading.induct)
     (subst strip_leading.simps, simp split: option.splits)

lemma strip_leading_id: "leading es s = None \<Longrightarrow> strip_leading es s = s"
  by (subst strip_leading.simps) simp

lemma strip_leading_suffix: "suffix (strip_leading es s) s"
proof (induction es s rule: strip_leading.induct)
  case (1 es s)
  show ?case
  proof (cases "leading es s")
    case None
    then show ?thesis by (simp add: strip_leading_id)
  next
    case (Some e)
    with "1" have "suffix (strip_leading es (drop (length e) s)) (drop (length e) s)" by simp
    with Some show ?thesis
      by (subst strip_leading.simps) (simp add: suffix_order.trans [OF _ suffix_drop])
  qed
qed

definition trim_start :: "string \<Rightarrow> string" where
  "trim_start s = strip_leading white_space s"

definition trim_end :: "string \<Rightarrow> string" where
  "trim_end s = rev (strip_leading (map rev white_space) (rev s))"

definition trim :: "string \<Rightarrow> string" where
  "trim s = trim_end (trim_start s)"

lemma trim_end_idem [simp]: "trim_end (trim_end s) = trim_end s"
  by (simp add: trim_end_def strip_leading_id)

lemma trim_end_Nil [simp]: "trim_end [] = []"
  using strip_leading_suffix [of _ "[]"] by (simp add: trim_end_def)

lemma trim_end_prefix: "prefix (trim_end s) s"
  using strip_leading_suffix [of "map rev white_space" "rev s"]
  by (simp add: trim_end_def suffix_to_prefix)

lemma trim_Nil [simp]: "trim [] = []"
  using strip_leading_suffix [of white_space "[]"] by (simp add: trim_def trim_start_def)

lemma leading_prefix: "prefix s t \<Longrightarrow> leading es t = None \<Longrightarrow> leading es s = None"
  unfolding leading_None_iff
  by (metis append_eq_conv_conj append_take_drop_id prefix_def append.assoc)

lemma trim_start_trim_end: "trim_start (trim_end (trim_start s)) = trim_end (trim_start s)"
  unfolding trim_start_def
  by (rule strip_leading_id) (rule leading_prefix [OF trim_end_prefix], simp)

lemma trim_idem [simp]: "trim (trim s) = trim s"
  by (simp add: trim_def trim_start_trim_end)

text \<open>A printable ASCII byte neither begins nor ends the encoding of a white-space code point.\<close>

definition plain :: "char \<Rightarrow> bool" where
  "plain c \<longleftrightarrow> 33 \<le> (of_char c :: nat) \<and> (of_char c :: nat) < 127"

lemma white_space_not_plain: "e \<in> set white_space \<Longrightarrow> \<not> plain (hd e) \<and> \<not> plain (last e) \<and> e \<noteq> []"
  by (auto simp: white_space_def plain_def)

lemma leading_None_hd: "s = [] \<or> (\<forall>e\<in>set es. hd e \<noteq> hd s) \<Longrightarrow> leading es s = None"
  by (cases s) (auto simp: leading_None_iff, metis append_take_drop_id hd_append2 list.sel(1))

lemma trim_start_plain: "s = [] \<or> plain (hd s) \<Longrightarrow> trim_start s = s"
  unfolding trim_start_def
  by (intro strip_leading_id leading_None_hd) (metis white_space_not_plain)

lemma trim_end_plain: "s = [] \<or> plain (last s) \<Longrightarrow> trim_end s = s"
  unfolding trim_end_def
  by (subst strip_leading_id, rule leading_None_hd)
     (auto simp: hd_rev dest: white_space_not_plain)

lemma trim_plain: "s = [] \<or> plain (hd s) \<and> plain (last s) \<Longrightarrow> trim s = s"
  by (auto simp: trim_def trim_start_plain trim_end_plain)

subsection \<open>Searching and splitting\<close>

text \<open>\<open>str::strip_prefix(char)\<close>.\<close>

fun strip_prefix_char :: "char \<Rightarrow> string \<Rightarrow> string option" where
  "strip_prefix_char c [] = None"
| "strip_prefix_char c (x # xs) = (if x = c then Some xs else None)"

text \<open>\<open>str::split_once(char)\<close>: around the first occurrence.\<close>

fun split_once :: "char \<Rightarrow> string \<Rightarrow> (string \<times> string) option" where
  "split_once c [] = None"
| "split_once c (x # xs) =
     (if x = c then Some ([], xs)
      else case split_once c xs of None \<Rightarrow> None | Some (a, b) \<Rightarrow> Some (x # a, b))"

lemma split_once_SomeD: "split_once c s = Some (a, b) \<Longrightarrow> s = a @ c # b \<and> c \<notin> set a"
  by (induction s arbitrary: a) (auto split: if_splits option.splits)

lemma split_once_None_iff: "split_once c s = None \<longleftrightarrow> c \<notin> set s"
  by (induction s) (auto split: option.splits)

lemma split_once_append: "c \<notin> set a \<Longrightarrow> split_once c (a @ c # b) = Some (a, b)"
  by (induction a) auto

text \<open>\<open>str::contains(char)\<close>, \<open>str::ends_with(&str)\<close>, \<open>str::starts_with(&str)\<close>.\<close>

definition contains_char :: "char \<Rightarrow> string \<Rightarrow> bool" where
  "contains_char c s \<longleftrightarrow> c \<in> set s"

definition ends_with :: "string \<Rightarrow> string \<Rightarrow> bool" where
  "ends_with s t \<longleftrightarrow> length t \<le> length s \<and> drop (length s - length t) s = t"

lemma ends_with_iff: "ends_with s t \<longleftrightarrow> (\<exists>r. s = r @ t)"
proof
  assume "ends_with s t"
  then have "s = take (length s - length t) s @ t"
    by (metis append_take_drop_id ends_with_def)
  then show "\<exists>r. s = r @ t" by blast
qed (auto simp: ends_with_def)

subsection \<open>\<open>str::lines\<close>\<close>

text \<open>A line terminator is a line feed, with a carriage return right before it if there is one.\<close>

definition strip_cr :: "string \<Rightarrow> string" where
  "strip_cr l = (if l \<noteq> [] \<and> last l = carriage_return then butlast l else l)"

function str_lines :: "string \<Rightarrow> string list" where
  "str_lines s =
     (if s = [] then []
      else case split_once newline s of
          None \<Rightarrow> [s]
        | Some (l, rest) \<Rightarrow> strip_cr l # str_lines rest)"
  by pat_completeness auto
termination
  by (relation "measure length") (auto dest: split_once_SomeD)

declare str_lines.simps [simp del]

lemma str_lines_Nil [simp]: "str_lines [] = []"
  by (subst str_lines.simps) simp

lemma str_lines_line: "newline \<notin> set l \<Longrightarrow> str_lines (l @ newline # rest) = strip_cr l # str_lines rest"
  by (subst str_lines.simps) (simp add: split_once_append)

lemma str_lines_concat:
  assumes "\<forall>l\<in>set ls. newline \<notin> set l \<and> carriage_return \<notin> set l"
  shows "str_lines (concat (map (\<lambda>l. l @ [newline]) ls)) = ls"
  using assms
proof (induction ls)
  case (Cons l ls)
  then have "strip_cr l = l" by (cases l rule: rev_cases) (auto simp: strip_cr_def)
  with Cons show ?case by (simp add: str_lines_line)
qed simp

text \<open>A file that ends with a line feed continues line by line.\<close>

lemma str_lines_append: "str_lines (a @ newline # b) = str_lines (a @ [newline]) @ str_lines b"
proof (induction a rule: length_induct)
  case (1 a)
  show ?case
  proof (cases "split_once newline a")
    case None
    then have "newline \<notin> set a" by (simp add: split_once_None_iff)
    then show ?thesis by (simp add: str_lines_line)
  next
    case (Some p)
    obtain l r where p: "p = (l, r)" by fastforce
    with Some have a: "a = l @ newline # r" and l: "newline \<notin> set l"
      by (auto dest: split_once_SomeD)
    from a have "length r < length a" by simp
    with "1" have "str_lines (r @ newline # b) = str_lines (r @ [newline]) @ str_lines b" by blast
    then show ?thesis by (simp add: a str_lines_line [OF l])
  qed
qed

end
