(* ===== verification/Fs.thy ===== *)
theory Fs
  imports Rust_Str
begin

text \<open>
  The part of \<open>std::fs\<close> and \<open>std::path\<close> the program uses: paths as lists of
  components, a file system as a map from paths to files, and the system calls of a run as
  an explicit list of operations. The state after a run is the fold of its operations; a
  crash in the middle of a run is a prefix of them.
\<close>

subsection \<open>Paths\<close>

type_synonym path = "string list"

definition path_file_name :: "path \<Rightarrow> string option" where
  "path_file_name p = (if p = [] \<or> last p = ''..'' then None else Some (last p))"

text \<open>\<open>Path::file_stem\<close>: up to the last dot, unless that dot is the first byte.\<close>

definition file_stem :: "string \<Rightarrow> string" where
  "file_stem name =
     (case split_once CHR ''.'' (rev name) of
        None \<Rightarrow> name
      | Some (_, before) \<Rightarrow> if before = [] then name else rev before)"

definition with_extension :: "path \<Rightarrow> string \<Rightarrow> path" where
  "with_extension p ext =
     (case path_file_name p of
        None \<Rightarrow> p
      | Some name \<Rightarrow> butlast p @ [file_stem name @ (if ext = [] then [] else CHR ''.'' # ext)])"

lemma with_extension_butlast: "butlast (with_extension p ext) = butlast p"
  by (auto simp: with_extension_def path_file_name_def)

text \<open>A file name that has another extension gets a different path.\<close>

lemma with_extension_neq:
  assumes "path_file_name p = Some name" "\<not> ends_with name (CHR ''.'' # ext)" "ext \<noteq> []"
  shows "with_extension p ext \<noteq> p"
proof
  assume eq: "with_extension p ext = p"
  from assms(1) have "p \<noteq> []" "last p = name" by (auto simp: path_file_name_def split: if_splits)
  moreover from eq assms(1,3) have "last p = file_stem name @ CHR ''.'' # ext"
    by (simp add: with_extension_def) (metis last_snoc)
  ultimately show False using assms(2) unfolding ends_with_iff by metis
qed

subsection \<open>Files and operations\<close>

text \<open>\<open>std::io::ErrorKind\<close>, as far as the program distinguishes the kinds.\<close>

datatype io_error = IoNotFound | IoNotADirectory | IoOther string

text \<open>A modification time is a \<open>SystemTime\<close>: nanoseconds since the Unix epoch.\<close>

type_synonym system_time = int

record fs_file =
  file_content :: bytes
  file_mtime :: system_time

type_synonym fs = "path \<Rightarrow> fs_file option"

datatype fs_op =
    Op_Create path system_time \<comment> \<open>open, create or truncate\<close>
  | Op_Write path bytes system_time \<comment> \<open>append to the open file\<close>
  | Op_Sync path
  | Op_Rename path path
  | Op_Remove path

fun apply_op :: "fs \<Rightarrow> fs_op \<Rightarrow> fs" where
  "apply_op fs (Op_Create p t) = fs(p \<mapsto> \<lparr>file_content = [], file_mtime = t\<rparr>)"
| "apply_op fs (Op_Write p bs t) =
     (case fs p of
        None \<Rightarrow> fs
      | Some f \<Rightarrow> fs(p \<mapsto> \<lparr>file_content = file_content f @ bs, file_mtime = t\<rparr>))"
| "apply_op fs (Op_Sync p) = fs"
| "apply_op fs (Op_Rename p q) =
     (case fs p of None \<Rightarrow> fs | Some f \<Rightarrow> (fs(p := None))(q \<mapsto> f))"
| "apply_op fs (Op_Remove p) = fs(p := None)"

definition run_ops :: "fs \<Rightarrow> fs_op list \<Rightarrow> fs" where
  "run_ops fs ops = foldl apply_op fs ops"

lemma run_ops_simps [simp]:
  "run_ops fs [] = fs"
  "run_ops fs (op # ops) = run_ops (apply_op fs op) ops"
  "run_ops fs (xs @ ys) = run_ops (run_ops fs xs) ys"
  by (simp_all add: run_ops_def)

text \<open>The paths an operation may change.\<close>

fun op_paths :: "fs_op \<Rightarrow> path set" where
  "op_paths (Op_Create p t) = {p}"
| "op_paths (Op_Write p bs t) = {p}"
| "op_paths (Op_Sync p) = {}"
| "op_paths (Op_Rename p q) = {p, q}"
| "op_paths (Op_Remove p) = {p}"

lemma apply_op_other: "q \<notin> op_paths op \<Longrightarrow> apply_op fs op q = fs q"
  by (cases op) (auto split: option.splits)

lemma run_ops_other: "(\<forall>op\<in>set ops. q \<notin> op_paths op) \<Longrightarrow> run_ops fs ops q = fs q"
  by (induction ops arbitrary: fs) (auto simp: apply_op_other)

text \<open>
  Which system calls fail, and how: a failing write stores only a prefix of the data.
  Each of these calls is made at most once per database build.
\<close>

record faults =
  fail_create :: "io_error option"
  fail_write :: "(nat \<times> io_error) option"
  fail_sync :: "io_error option"
  fail_rename :: "io_error option"
  fail_remove :: "io_error option"

definition no_faults :: faults where
  "no_faults = \<lparr>fail_create = None, fail_write = None, fail_sync = None, fail_rename = None,
     fail_remove = None\<rparr>"

end
