(* ===== verification/Net_Addr.thy ===== *)
theory Net_Addr
  imports Rust_Str
begin

text \<open>
  Addresses of Rust's \<open>std::net\<close> as far as the program uses them: the textual parsers
  behind \<open>str::parse::<Ipv4Addr>\<close> and \<open>str::parse::<IpAddr>\<close> (decimal octets
  without leading zeros; colon-separated hexadecimal groups with one \<open>::\<close> and an optional
  trailing dotted quad) and the \<open>Display\<close> form of an IPv4 address.
\<close>

type_synonym ipv4 = "32 word"
type_synonym ipv6 = "128 word"

datatype ip_addr = V4 ipv4 | V6 ipv6

subsection \<open>Numbers\<close>

definition code :: "char \<Rightarrow> nat" where
  "code c = of_char c"

text \<open>\<open>char::to_digit\<close> on the bytes of the input.\<close>

definition to_digit :: "nat \<Rightarrow> char \<Rightarrow> nat option" where
  "to_digit radix c =
     (let d = (if 48 \<le> code c \<and> code c \<le> 57 then code c - 48
               else if 97 \<le> code c \<and> code c \<le> 122 then code c - 87
               else if 65 \<le> code c \<and> code c \<le> 90 then code c - 55
               else radix)
      in if d < radix then Some d else None)"

text \<open>
  The digit loop of \<open>read_number\<close>: \<open>acc\<close> is the value so far, \<open>n\<close> the number of
  digits read. It fails as soon as there are more than \<open>max_digits\<close>.
\<close>

fun read_digits :: "nat \<Rightarrow> nat \<Rightarrow> nat \<Rightarrow> nat \<Rightarrow> string \<Rightarrow> (nat \<times> nat \<times> string) option" where
  "read_digits radix max_digits n acc [] = Some (n, acc, [])"
| "read_digits radix max_digits n acc (c # cs) =
     (case to_digit radix c of
        None \<Rightarrow> Some (n, acc, c # cs)
      | Some d \<Rightarrow>
          if Suc n > max_digits then None
          else read_digits radix max_digits (Suc n) (acc * radix + d) cs)"

text \<open>
  A number of at most \<open>max_digits\<close> digits below \<open>limit\<close> (the range of the target type),
  with leading zeros refused unless \<open>zero_prefix\<close>.
\<close>

definition read_number :: "nat \<Rightarrow> nat \<Rightarrow> bool \<Rightarrow> nat \<Rightarrow> string \<Rightarrow> (nat \<times> string) option" where
  "read_number radix max_digits zero_prefix limit s =
     (case read_digits radix max_digits 0 0 s of
        None \<Rightarrow> None
      | Some (n, v, rest) \<Rightarrow>
          if n = 0 then None
          else if \<not> zero_prefix \<and> take 1 s = ''0'' \<and> 1 < n then None
          else if v < limit then Some (v, rest) else None)"

text \<open>\<open>read_separator\<close>: the separator precedes every item but the first.\<close>

definition read_separator ::
  "char \<Rightarrow> nat \<Rightarrow> (string \<Rightarrow> ('a \<times> string) option) \<Rightarrow> string \<Rightarrow> ('a \<times> string) option" where
  "read_separator sep i inner s =
     (if i = 0 then inner s
      else case strip_prefix_char sep s of None \<Rightarrow> None | Some rest \<Rightarrow> inner rest)"

subsection \<open>IPv4\<close>

definition read_octet :: "nat \<Rightarrow> string \<Rightarrow> (nat \<times> string) option" where
  "read_octet i = read_separator CHR ''.'' i (read_number 10 3 False 256)"

text \<open>\<open>Ipv4Addr::new\<close> from four octets.\<close>

definition ipv4_of_octets :: "nat \<Rightarrow> nat \<Rightarrow> nat \<Rightarrow> nat \<Rightarrow> ipv4" where
  "ipv4_of_octets a b c d = ((of_nat a * 256 + of_nat b) * 256 + of_nat c) * 256 + of_nat d"

definition read_ipv4 :: "string \<Rightarrow> (ipv4 \<times> string) option" where
  "read_ipv4 s =
     (case read_octet 0 s of None \<Rightarrow> None | Some (a, s1) \<Rightarrow>
      case read_octet 1 s1 of None \<Rightarrow> None | Some (b, s2) \<Rightarrow>
      case read_octet 2 s2 of None \<Rightarrow> None | Some (c, s3) \<Rightarrow>
      case read_octet 3 s3 of None \<Rightarrow> None | Some (d, s4) \<Rightarrow>
        Some (ipv4_of_octets a b c d, s4))"

text \<open>\<open>Ipv4Addr::from_str\<close>: at most 15 bytes, and nothing left over.\<close>

definition parse_ipv4 :: "string \<Rightarrow> ipv4 option" where
  "parse_ipv4 s =
     (if 15 < length s then None
      else case read_ipv4 s of Some (a, []) \<Rightarrow> Some a | _ \<Rightarrow> None)"

subsection \<open>IPv6\<close>

definition read_group :: "nat \<Rightarrow> string \<Rightarrow> (nat \<times> string) option" where
  "read_group i = read_separator CHR '':'' i (read_number 16 4 True 65536)"

text \<open>
  \<open>read_groups\<close>: up to \<open>limit\<close> groups, the \<open>i\<close>-th one next; the two last may be a dotted
  quad. Returns the groups read, whether a dotted quad was among them, and the rest.
\<close>

function read_groups :: "nat \<Rightarrow> nat \<Rightarrow> string \<Rightarrow> nat list \<times> bool \<times> string" where
  "read_groups limit i s =
     (if limit \<le> i then ([], False, s)
      else case (if i < limit - 1 then read_separator CHR '':'' i read_ipv4 s else None) of
          Some (v4, rest) \<Rightarrow> ([unat (v4 div 65536), unat (v4 mod 65536)], True, rest)
        | None \<Rightarrow>
            (case read_group i s of
               None \<Rightarrow> ([], False, s)
             | Some (g, rest) \<Rightarrow>
                 (case read_groups limit (Suc i) rest of (gs, v4, rest') \<Rightarrow> (g # gs, v4, rest'))))"
  by pat_completeness auto
termination
  by (relation "measure (\<lambda>(limit, i, s). limit - i)") auto

declare read_groups.simps [simp del]

definition ipv6_of_groups :: "nat list \<Rightarrow> ipv6" where
  "ipv6_of_groups gs = foldl (\<lambda>w g. w * 65536 + of_nat g) 0 gs"

definition read_ipv6 :: "string \<Rightarrow> (ipv6 \<times> string) option" where
  "read_ipv6 s =
     (case read_groups 8 0 s of (head, head_ipv4, s1) \<Rightarrow>
        if length head = 8 then Some (ipv6_of_groups head, s1)
        else if head_ipv4 then None
        else if take 2 s1 = ''::'' then
          (case read_groups (8 - (length head + 1)) 0 (drop 2 s1) of (tail, _, s2) \<Rightarrow>
             Some (ipv6_of_groups
               (head @ replicate (8 - length head - length tail) 0 @ tail), s2))
        else None)"

subsection \<open>\<open>IpAddr::from_str\<close>\<close>

definition parse_ip_addr :: "string \<Rightarrow> ip_addr option" where
  "parse_ip_addr s =
     (case read_ipv4 s of
        Some (a, rest) \<Rightarrow> if rest = [] then Some (V4 a) else None
      | None \<Rightarrow>
          (case read_ipv6 s of
             Some (a, rest) \<Rightarrow> if rest = [] then Some (V6 a) else None
           | None \<Rightarrow> None))"

subsection \<open>\<open>Display\<close> of an IPv4 address\<close>

definition digit :: "nat \<Rightarrow> char" where
  "digit d = char_of (48 + d)"

definition show_octet :: "nat \<Rightarrow> string" where
  "show_octet n =
     (if n < 10 then [digit n]
      else if n < 100 then [digit (n div 10), digit (n mod 10)]
      else [digit (n div 100), digit (n div 10 mod 10), digit (n mod 10)])"

definition octet :: "nat \<Rightarrow> ipv4 \<Rightarrow> nat" where
  "octet i a = unat a div 256 ^ (3 - i) mod 256"

definition show_ipv4 :: "ipv4 \<Rightarrow> string" where
  "show_ipv4 a =
     show_octet (octet 0 a) @ ''.'' @ show_octet (octet 1 a) @ ''.'' @
     show_octet (octet 2 a) @ ''.'' @ show_octet (octet 3 a)"

subsection \<open>Printing and parsing agree\<close>

lemma octet_less [simp]: "octet i a < 256"
  by (simp add: octet_def)

lemma to_digit_digit [simp]: "d < 10 \<Longrightarrow> to_digit 10 (digit d) = Some d"
  by (simp add: to_digit_def code_def digit_def Let_def)

lemma digit_zero: "digit 0 = CHR ''0''"
proof -
  have "of_char (CHR ''0'') = (48 :: nat)" by simp
  then show ?thesis unfolding digit_def by (metis add.right_neutral char_of_char)
qed

lemma digit_eq_zero_iff: "d < 10 \<Longrightarrow> digit d = CHR ''0'' \<longleftrightarrow> d = 0"
  using to_digit_digit [of d] to_digit_digit [of 0]
  unfolding digit_zero [symmetric] by (metis option.inject zero_less_numeral)

text \<open>What may follow a number: nothing, or a byte that is no digit.\<close>

definition ends_number :: "nat \<Rightarrow> string \<Rightarrow> bool" where
  "ends_number radix s \<longleftrightarrow> (case s of [] \<Rightarrow> True | c # _ \<Rightarrow> to_digit radix c = None)"

lemma ends_number_simps [simp]:
  "ends_number 10 []" "ends_number 10 (CHR ''.'' # s)" "ends_number 10 (CHR ''/'' # s)"
  by (simp_all add: ends_number_def to_digit_def code_def)

lemma read_digits_end: "ends_number r s \<Longrightarrow> read_digits r m n acc s = Some (n, acc, s)"
  by (cases s) (auto simp: ends_number_def)

lemma two_digits: "(n div 100 * 10 + n div 10 mod 10) * 10 + n mod 10 = (n :: nat)"
proof -
  have "n div 100 = n div 10 div 10" by (simp add: div_mult2_eq)
  then have "n div 100 * 10 + n div 10 mod 10 = n div 10"
    by (simp only: div_mult_mod_eq)
  then show ?thesis by (simp only: div_mult_mod_eq)
qed

lemma four_octets:
  assumes "n < 2 ^ 32"
  shows "((n div 16777216 mod 256 * 256 + n div 65536 mod 256) * 256 + n div 256 mod 256) * 256
    + n mod 256 = (n :: nat)"
proof -
  have q: "n div 65536 = n div 256 div 256" "n div 16777216 = n div 65536 div 256"
    by (simp_all add: div_mult2_eq)
  from assms have "n div 16777216 < 256" by (simp add: less_mult_imp_div_less)
  then have "n div 16777216 mod 256 * 256 + n div 65536 mod 256 = n div 65536"
    using q(2) by (simp only: mod_less div_mult_mod_eq)
  moreover have "n div 65536 * 256 + n div 256 mod 256 = n div 256"
    by (simp only: q(1) div_mult_mod_eq)
  ultimately show ?thesis by (simp only: div_mult_mod_eq)
qed

lemma read_number_show_octet:
  assumes n: "n < 256" and e: "ends_number 10 rest"
  shows "read_number 10 3 False 256 (show_octet n @ rest) = Some (n, rest)"
proof -
  consider "n < 10" | "10 \<le> n" "n < 100" | "100 \<le> n" by linarith
  then show ?thesis
  proof cases
    case 1
    then show ?thesis using e
      by (simp add: read_number_def show_octet_def read_digits_end)
  next
    case 2
    then have "n div 10 < 10" "n div 10 \<noteq> 0" by auto
    with 2 e show ?thesis
      by (simp add: read_number_def show_octet_def read_digits_end digit_eq_zero_iff)
  next
    case 3
    with n have "n div 100 < 10" "n div 100 \<noteq> 0" by auto
    moreover have "(n div 100 * 10 + n div 10 mod 10) * 10 + n mod 10 = n"
      by (rule two_digits)
    ultimately show ?thesis using 3 e n
      by (simp add: read_number_def show_octet_def read_digits_end digit_eq_zero_iff)
  qed
qed

lemma ipv4_of_octets_octet: "ipv4_of_octets (octet 0 a) (octet 1 a) (octet 2 a) (octet 3 a) = a"
proof -
  have "unat a < 2 ^ 32" using unsigned_less [of a] by simp
  note sum = four_octets [OF this]
  have "octet 0 a = unat a div 16777216 mod 256" "octet 1 a = unat a div 65536 mod 256"
    "octet 2 a = unat a div 256 mod 256" "octet 3 a = unat a mod 256"
    by (simp_all add: octet_def)
  then have "((octet 0 a * 256 + octet 1 a) * 256 + octet 2 a) * 256 + octet 3 a = unat a"
    by (simp only: sum)
  then have "of_nat (((octet 0 a * 256 + octet 1 a) * 256 + octet 2 a) * 256 + octet 3 a) = a"
    by (simp only: of_nat_unat id_apply ucast_id)
  then show ?thesis
    by (simp only: ipv4_of_octets_def of_nat_add of_nat_mult of_nat_numeral)
qed

lemma read_octet_show:
  assumes "n < 256" "ends_number 10 rest"
  shows "read_octet 0 (show_octet n @ rest) = Some (n, rest)"
    and "0 < i \<Longrightarrow> read_octet i (CHR ''.'' # show_octet n @ rest) = Some (n, rest)"
  using read_number_show_octet [OF assms] by (simp_all add: read_octet_def read_separator_def)

lemma read_ipv4_show: "ends_number 10 rest \<Longrightarrow> read_ipv4 (show_ipv4 a @ rest) = Some (a, rest)"
  by (simp add: read_ipv4_def show_ipv4_def read_octet_show ipv4_of_octets_octet [simplified])

lemma length_show_octet: "length (show_octet n) \<le> 3"
  by (simp add: show_octet_def)

lemma length_show_ipv4: "length (show_ipv4 a) \<le> 15"
  using length_show_octet [of "octet 0 a"] length_show_octet [of "octet 1 a"]
    length_show_octet [of "octet 2 a"] length_show_octet [of "octet 3 a"]
  by (simp add: show_ipv4_def)

lemma parse_ipv4_show [simp]: "parse_ipv4 (show_ipv4 a) = Some a"
  using read_ipv4_show [of "[]" a] length_show_ipv4 [of a] by (simp add: parse_ipv4_def)

lemma parse_ip_addr_show_ipv4 [simp]: "parse_ip_addr (show_ipv4 a) = Some (V4 a)"
  using read_ipv4_show [of "[]" a] by (simp add: parse_ip_addr_def)

subsection \<open>The bytes of a printed address\<close>

definition addr_char :: "char \<Rightarrow> bool" where
  "addr_char c \<longleftrightarrow> c = CHR ''.'' \<or> 48 \<le> (of_char c :: nat) \<and> (of_char c :: nat) \<le> 57"

lemma addr_char_digit [simp]: "d < 10 \<Longrightarrow> addr_char (digit d)"
  by (simp add: addr_char_def digit_def)

lemma addr_char_octet: "n < 256 \<Longrightarrow> c \<in> set (show_octet n) \<Longrightarrow> addr_char c"
  by (auto simp: show_octet_def split: if_splits)

lemma addr_char_ipv4: "c \<in> set (show_ipv4 a) \<Longrightarrow> addr_char c"
  by (auto simp: show_ipv4_def dest: addr_char_octet [OF octet_less]) (auto simp: addr_char_def)

lemma addr_char_plain: "addr_char c \<Longrightarrow> plain c"
  by (auto simp: addr_char_def plain_def)

lemma show_octet_not_Nil [simp]: "show_octet n \<noteq> []"
  by (simp add: show_octet_def)

lemma show_ipv4_not_Nil [simp]: "show_ipv4 a \<noteq> []"
  by (simp add: show_ipv4_def)

lemma show_ipv4_free:
  "CHR ''#'' \<notin> set (show_ipv4 a)" "CHR ''/'' \<notin> set (show_ipv4 a)"
  "newline \<notin> set (show_ipv4 a)" "carriage_return \<notin> set (show_ipv4 a)"
  by (auto dest!: addr_char_ipv4 simp: addr_char_def newline_def carriage_return_def)

lemma trim_show_ipv4 [simp]: "trim (show_ipv4 a) = show_ipv4 a"
  by (intro trim_plain disjI2 conjI addr_char_plain addr_char_ipv4 [of _ a]) simp_all

end
