(* ===== verification/Interfaces.thy ===== *)
theory Interfaces
  imports Net_Addr
begin

text \<open>
  The third-party crates, as the program calls them: one record of functions per crate
  (\<open>ipnet\<close>, \<open>chrono\<close>, \<open>mmdb_writer\<close>, \<open>geoip2\<close>), passed as an
  argument to every definition that calls it. Their types stay type variables. What the
  program relies on is stated as the laws of a locale; \<open>Reference\<close> holds instances that
  satisfy them.
\<close>

subsection \<open>\<open>ipnet\<close>: IPv4 networks\<close>

record 'net ipnet_api =
  net_from_str :: "string \<Rightarrow> 'net option" \<comment> \<open>\<open>str::parse::<Ipv4Net>\<close>\<close>
  net_of_addr :: "ipv4 \<Rightarrow> 'net" \<comment> \<open>\<open>Ipv4Net::from(Ipv4Addr)\<close>\<close>

text \<open>A bare address is the /32 network that covers exactly this address.\<close>

locale ipnet_laws =
  fixes N :: "'net ipnet_api"
    and covers :: "'net \<Rightarrow> ipv4 \<Rightarrow> bool"
  assumes covers_addr: "covers (net_of_addr N a) b \<longleftrightarrow> a = b"

subsection \<open>\<open>chrono\<close>: dates\<close>

record 'dt chrono_api =
  naive_parse :: "string \<Rightarrow> string \<Rightarrow> 'dt option"
    \<comment> \<open>\<open>NaiveDateTime::parse_from_str(value, format)\<close>\<close>
  utc_rfc3339 :: "'dt \<Rightarrow> string" \<comment> \<open>\<open>.and_utc().to_rfc3339()\<close>\<close>

subsection \<open>\<open>mmdb_writer\<close>: values and the search tree\<close>

text \<open>The values the program builds (\<open>Value::from(&str)\<close>, \<open>Value::array\<close>, \<open>Value::map\<close>).\<close>

datatype mval = VString string | VArray "mval list" | VMap "(string \<times> mval) list"

record db_config =
  database_type :: string
  ip_version :: nat
  record_size :: nat
  build_epoch :: nat

record ('w, 'net) writer_api =
  w_new :: "db_config \<Rightarrow> 'w" \<comment> \<open>\<open>Writer::builder(..)...build()\<close>\<close>
  w_insert_with :: "'w \<Rightarrow> 'net \<Rightarrow> (mval option \<Rightarrow> mval option) \<Rightarrow> string + 'w"
  w_to_bytes :: "'w \<Rightarrow> string + bytes"
  w_merge_deep :: "mval \<Rightarrow> mval \<Rightarrow> mval" \<comment> \<open>\<open>Value::merge_deep\<close>\<close>

text \<open>
  What the builder relies on: a new tree is empty; \<open>insert_with\<close> replaces the value of
  every address of the network by the function's result for its old value and leaves the
  other addresses alone; a deep merge appends arrays and goes into maps key by key.
  \<open>content w a\<close> is the value the tree \<open>w\<close> holds for the address \<open>a\<close>.
\<close>

locale mmdb_writer =
  fixes W :: "('w, 'net) writer_api"
    and covers :: "'net \<Rightarrow> ipv4 \<Rightarrow> bool"
    and content :: "'w \<Rightarrow> ipv4 \<Rightarrow> mval option"
  assumes content_new: "content (w_new W cfg) a = None"
    and content_insert:
      "w_insert_with W w n f = Inr w' \<Longrightarrow>
        content w' a = (if covers n a then f (content w a) else content w a)"
    and merge_array: "w_merge_deep W (VArray xs) (VArray ys) = VArray (xs @ ys)"
    and merge_map:
      "length ks = length vs \<Longrightarrow> length ks = length us \<Longrightarrow> distinct ks \<Longrightarrow>
        w_merge_deep W (VMap (zip ks vs)) (VMap (zip ks us)) =
        VMap (zip ks (map2 (w_merge_deep W) vs us))"

subsection \<open>\<open>geoip2\<close> with the record added by \<open>geoip2-rs.patch\<close>\<close>

record firehol_entry =
  entry_file_name :: "string list"
  entry_source_file_date :: "string list"
  entry_list_source_url :: "string list"
  entry_maintainer_url :: "string list"
  entry_maintainer :: "string list"
  entry_category :: "string list"

definition default_entry :: firehol_entry where
  "default_entry = \<lparr>entry_file_name = [], entry_source_file_date = [], entry_list_source_url = [],
     entry_maintainer_url = [], entry_maintainer = [], entry_category = []\<rparr>"

text \<open>The two errors the program distinguishes, and every other one.\<close>

datatype geo_error = NotFound | IPv4Only | OtherGeoError string

record 'rd geoip_api =
  g_from_bytes :: "bytes \<Rightarrow> geo_error + 'rd" \<comment> \<open>\<open>Reader::from_bytes\<close>\<close>
  g_lookup :: "'rd \<Rightarrow> ip_addr \<Rightarrow> geo_error + firehol_entry" \<comment> \<open>\<open>Reader::lookup\<close>\<close>
  g_node_count :: "'rd \<Rightarrow> u32" \<comment> \<open>\<open>get_metadata().node_count\<close>\<close>

text \<open>
  A record map decodes to the entry whose fields are the string arrays stored under the
  fields' names.
\<close>

fun strings_of :: "mval \<Rightarrow> string list option" where
  "strings_of (VArray vs) =
     those (map (\<lambda>v. case v of VString s \<Rightarrow> Some s | _ \<Rightarrow> None) vs)"
| "strings_of _ = None"

definition field_of :: "(string \<times> mval) list \<Rightarrow> string \<Rightarrow> string list option" where
  "field_of kvs k = (case map_of kvs k of None \<Rightarrow> Some [] | Some v \<Rightarrow> strings_of v)"

fun entry_of_value :: "mval \<Rightarrow> firehol_entry option" where
  "entry_of_value (VMap kvs) =
     (case (field_of kvs ''file_name'', field_of kvs ''source_file_date_rfc3339'',
            field_of kvs ''list_source_url'', field_of kvs ''maintainer_url'',
            field_of kvs ''maintainer'', field_of kvs ''category'') of
        (Some f, Some d, Some l, Some u, Some m, Some c) \<Rightarrow>
          Some \<lparr>entry_file_name = f, entry_source_file_date = d, entry_list_source_url = l,
            entry_maintainer_url = u, entry_maintainer = m, entry_category = c\<rparr>
      | _ \<Rightarrow> None)"
| "entry_of_value _ = None"

text \<open>
  Writer and reader agree on the file format: a serialised IPv4 tree is a readable database,
  in which an IPv4 address finds the record the tree holds for it (or nothing), and an IPv6
  address is refused.
\<close>

locale mmdb_format = mmdb_writer W covers content
  for W :: "('w, 'net) writer_api"
    and covers :: "'net \<Rightarrow> ipv4 \<Rightarrow> bool"
    and content :: "'w \<Rightarrow> ipv4 \<Rightarrow> mval option" +
  fixes G :: "'rd geoip_api"
  assumes readable: "w_to_bytes W w = Inr bs \<Longrightarrow> \<exists>rd. g_from_bytes G bs = Inr rd"
    and lookup_absent:
      "w_to_bytes W w = Inr bs \<Longrightarrow> g_from_bytes G bs = Inr rd \<Longrightarrow> content w a = None \<Longrightarrow>
        g_lookup G rd (V4 a) = Inl NotFound"
    and lookup_present:
      "w_to_bytes W w = Inr bs \<Longrightarrow> g_from_bytes G bs = Inr rd \<Longrightarrow> content w a = Some v \<Longrightarrow>
        entry_of_value v = Some e \<Longrightarrow> g_lookup G rd (V4 a) = Inr e"
    and lookup_ipv6:
      "w_to_bytes W w = Inr bs \<Longrightarrow> g_from_bytes G bs = Inr rd \<Longrightarrow>
        g_lookup G rd (V6 b) = Inl IPv4Only"

end
