(* ===== verification/Codec.thy ===== *)
theory Codec
  imports Rust_Str
begin

text \<open>
  Prefix codecs: an encoder into a list and a decoder that returns the value and the rest of
  the input. The interface is the locale \<open>prefix_codec\<close>; every encoder of the development
  interprets it, and its lemmas (exact decoding, injectivity, no encoding is a prefix of
  another) are proved once here.
\<close>

locale prefix_codec =
  fixes valid :: "'a \<Rightarrow> bool"
    and enc :: "'a \<Rightarrow> 'b list"
    and dec :: "'b list \<Rightarrow> ('a \<times> 'b list) option"
  assumes dec_enc: "valid x \<Longrightarrow> dec (enc x @ rest) = Some (x, rest)"
begin

lemma dec_exact: "valid x \<Longrightarrow> dec (enc x) = Some (x, [])"
  using dec_enc [of x "[]"] by simp

lemma enc_append_eq_iff:
  assumes "valid x" "valid y"
  shows "enc x @ r = enc y @ s \<longleftrightarrow> x = y \<and> r = s"
proof
  assume eq: "enc x @ r = enc y @ s"
  have "dec (enc x @ r) = Some (x, r)" by (rule dec_enc [OF assms(1)])
  moreover have "dec (enc x @ r) = Some (y, s)" unfolding eq by (rule dec_enc [OF assms(2)])
  ultimately show "x = y \<and> r = s" by (simp only: option.inject prod.inject)
qed (erule conjE, hypsubst, rule refl)

lemma enc_inject: "valid x \<Longrightarrow> valid y \<Longrightarrow> enc x = enc y \<longleftrightarrow> x = y"
  using enc_append_eq_iff [of x y "[]" "[]"] by simp

lemma enc_prefix_free: "valid x \<Longrightarrow> valid y \<Longrightarrow> prefix (enc x) (enc y) \<Longrightarrow> x = y"
  using enc_append_eq_iff [of x y _ "[]"] by (metis append_Nil2 prefix_def)

end

subsection \<open>Sequencing and repetition\<close>

definition pair_enc :: "('a \<Rightarrow> 'b list) \<Rightarrow> ('c \<Rightarrow> 'b list) \<Rightarrow> 'a \<times> 'c \<Rightarrow> 'b list" where
  "pair_enc e1 e2 p = e1 (fst p) @ e2 (snd p)"

definition pair_dec ::
  "('b list \<Rightarrow> ('a \<times> 'b list) option) \<Rightarrow> ('b list \<Rightarrow> ('c \<times> 'b list) option)
    \<Rightarrow> 'b list \<Rightarrow> (('a \<times> 'c) \<times> 'b list) option" where
  "pair_dec d1 d2 bs =
     (case d1 bs of None \<Rightarrow> None | Some (x, r) \<Rightarrow>
      case d2 r of None \<Rightarrow> None | Some (y, r') \<Rightarrow> Some ((x, y), r'))"

lemma pair_codec:
  assumes "prefix_codec v1 e1 d1" "prefix_codec v2 e2 d2"
  shows "prefix_codec (\<lambda>p. v1 (fst p) \<and> v2 (snd p)) (pair_enc e1 e2) (pair_dec d1 d2)"
  by unfold_locales
     (auto simp: pair_enc_def pair_dec_def prefix_codec.dec_enc [OF assms(1)]
        prefix_codec.dec_enc [OF assms(2)])

text \<open>A list whose elements are each announced by a nonzero byte, ended by a zero byte.\<close>

fun seq_enc :: "('a \<Rightarrow> bytes) \<Rightarrow> 'a list \<Rightarrow> bytes" where
  "seq_enc e [] = [0]"
| "seq_enc e (x # xs) = 1 # e x @ seq_enc e xs"

text \<open>The decoder takes as many steps as there are bytes at most.\<close>

fun seq_dec_fuel ::
  "nat \<Rightarrow> (bytes \<Rightarrow> ('a \<times> bytes) option) \<Rightarrow> bytes \<Rightarrow> ('a list \<times> bytes) option" where
  "seq_dec_fuel 0 d bs = None"
| "seq_dec_fuel (Suc n) d bs =
     (case bs of
        [] \<Rightarrow> None
      | t # r \<Rightarrow>
          if t = 0 then Some ([], r)
          else case d r of
              None \<Rightarrow> None
            | Some (x, r') \<Rightarrow>
                (case seq_dec_fuel n d r' of
                   None \<Rightarrow> None
                 | Some (xs, r'') \<Rightarrow> Some (x # xs, r'')))"

definition seq_dec :: "(bytes \<Rightarrow> ('a \<times> bytes) option) \<Rightarrow> bytes \<Rightarrow> ('a list \<times> bytes) option" where
  "seq_dec d bs = seq_dec_fuel (length bs) d bs"

lemma seq_dec_fuel_enc:
  assumes "prefix_codec v e d" "\<forall>x\<in>set xs. v x" "length xs < n"
  shows "seq_dec_fuel n d (seq_enc e xs @ r) = Some (xs, r)"
  using assms(2,3)
proof (induction xs arbitrary: n)
  case Nil
  then show ?case by (cases n) auto
next
  case (Cons x xs)
  then obtain m where "n = Suc m" "length xs < m" by (cases n) auto
  with Cons show ?case by (simp add: prefix_codec.dec_enc [OF assms(1)])
qed

lemma length_seq_enc: "length xs < length (seq_enc e xs)"
  by (induction xs) auto

lemma seq_codec:
  assumes "prefix_codec v e d"
  shows "prefix_codec (\<lambda>xs. \<forall>x\<in>set xs. v x) (seq_enc e) (seq_dec d)"
proof
  fix xs r
  assume v: "\<forall>x\<in>set xs. v x"
  have "length xs < length (seq_enc e xs @ r)"
    using length_seq_enc [of xs e] by simp
  from seq_dec_fuel_enc [OF assms v this]
  show "seq_dec d (seq_enc e xs @ r) = Some (xs, r)" by (simp add: seq_dec_def)
qed

subsection \<open>Characters and strings\<close>

definition char_enc :: "char \<Rightarrow> bytes" where
  "char_enc c = [of_nat (of_char c)]"

fun char_dec :: "bytes \<Rightarrow> (char \<times> bytes) option" where
  "char_dec [] = None"
| "char_dec (b # r) = Some (char_of (unat b), r)"

lemma unat_of_char [simp]: "unat (of_nat (of_char c) :: u8) = of_char c"
  by (simp add: unat_of_nat)

interpretation char_codec: prefix_codec "\<lambda>_. True" char_enc char_dec
  by unfold_locales (simp add: char_enc_def)

interpretation str_codec: prefix_codec "\<lambda>xs. \<forall>x\<in>set xs. True" "seq_enc char_enc" "seq_dec char_dec"
  by (rule seq_codec, rule char_codec.prefix_codec_axioms)

end
