(* ===== verification/Reference.thy ===== *)
theory Reference
  imports Interfaces Codec
begin

text \<open>
  Concrete instances of the interfaces of \<open>Interfaces\<close>: a CIDR parser, a binary search
  tree over address bits with the insertion and merge the builder relies on, a byte format
  for it and a reader. They are no models of the crates' code: they interpret the locales,
  which shows that the laws can hold together, and witnesses compute with them.
\<close>

subsection \<open>Networks\<close>

record cidr =
  cidr_addr :: ipv4
  cidr_len :: nat

definition addr_bits :: "ipv4 \<Rightarrow> bool list" where
  "addr_bits a = map (bit a) [31, 30, 29, 28, 27, 26, 25, 24, 23, 22, 21, 20, 19, 18, 17, 16,
     15, 14, 13, 12, 11, 10, 9, 8, 7, 6, 5, 4, 3, 2, 1, 0]"

definition cidr_covers :: "cidr \<Rightarrow> ipv4 \<Rightarrow> bool" where
  "cidr_covers n a \<longleftrightarrow> take (cidr_len n) (addr_bits a) = take (cidr_len n) (addr_bits (cidr_addr n))"

definition cidr_from_str :: "string \<Rightarrow> cidr option" where
  "cidr_from_str s =
     (case split_once CHR ''/'' s of
        None \<Rightarrow> None
      | Some (a, l) \<Rightarrow>
          (case (parse_ipv4 a, read_number 10 2 False 33 l) of
             (Some addr, Some (len, [])) \<Rightarrow> Some \<lparr>cidr_addr = addr, cidr_len = len\<rparr>
           | _ \<Rightarrow> None))"

definition ref_ipnet :: "cidr ipnet_api" where
  "ref_ipnet = \<lparr>net_from_str = cidr_from_str, net_of_addr = (\<lambda>a. \<lparr>cidr_addr = a, cidr_len = 32\<rparr>)\<rparr>"

lemma length_addr_bits [simp]: "length (addr_bits a) = 32"
  by (simp add: addr_bits_def)

lemma addr_bits_nth: "i < 32 \<Longrightarrow> addr_bits a ! i = bit a (31 - i)"
proof -
  have "addr_bits a = map (\<lambda>i. bit a (31 - i)) [0..<32]"
    by (simp add: addr_bits_def upt_rec)
  then show "i < 32 \<Longrightarrow> addr_bits a ! i = bit a (31 - i)" by simp
qed

lemma addr_bits_inject: "addr_bits a = addr_bits b \<longleftrightarrow> a = b"
proof
  assume eq: "addr_bits a = addr_bits b"
  show "a = b"
  proof (rule bit_word_eqI)
    fix n :: nat
    assume "n < LENGTH(32)"
    then show "bit a n \<longleftrightarrow> bit b n"
      using addr_bits_nth [of "31 - n" a] addr_bits_nth [of "31 - n" b] eq by simp
  qed
qed simp

interpretation ref_net: ipnet_laws ref_ipnet cidr_covers
  by unfold_locales (auto simp: ref_ipnet_def cidr_covers_def addr_bits_inject)

text \<open>A calendar that knows one date.\<close>

definition ref_chrono :: "string chrono_api" where
  "ref_chrono =
     \<lparr>naive_parse = (\<lambda>value format.
        if value = ''Thu Sep 10 23:59:49 UTC 2026'' \<and> format = ''%a %b %e %H:%M:%S UTC %Y''
        then Some ''2026-09-10T23:59:49+00:00'' else None),
      utc_rfc3339 = (\<lambda>s. s)\<rparr>"

subsection \<open>The search tree\<close>

datatype 'v trie = Leaf "'v option" | Node "'v trie" "'v trie"

fun trie_lookup :: "'v trie \<Rightarrow> bool list \<Rightarrow> 'v option" where
  "trie_lookup (Leaf v) bs = v"
| "trie_lookup (Node l r) [] = None"
| "trie_lookup (Node l r) (b # bs) = trie_lookup (if b then r else l) bs"

fun trie_height :: "'v trie \<Rightarrow> nat" where
  "trie_height (Leaf v) = 0"
| "trie_height (Node l r) = Suc (max (trie_height l) (trie_height r))"

fun trie_map :: "('v option \<Rightarrow> 'u option) \<Rightarrow> 'v trie \<Rightarrow> 'u trie" where
  "trie_map f (Leaf v) = Leaf (f v)"
| "trie_map f (Node l r) = Node (trie_map f l) (trie_map f r)"

fun trie_insert :: "('v option \<Rightarrow> 'v option) \<Rightarrow> bool list \<Rightarrow> 'v trie \<Rightarrow> 'v trie" where
  "trie_insert f [] t = trie_map f t"
| "trie_insert f (b # p) (Leaf v) =
     (if b then Node (Leaf v) (trie_insert f p (Leaf v))
      else Node (trie_insert f p (Leaf v)) (Leaf v))"
| "trie_insert f (b # p) (Node l r) =
     (if b then Node l (trie_insert f p r) else Node (trie_insert f p l) r)"

lemma trie_lookup_map:
  "trie_height t \<le> length bs \<Longrightarrow> trie_lookup (trie_map f t) bs = f (trie_lookup t bs)"
proof (induction t arbitrary: bs)
  case (Node l r)
  then show ?case by (cases bs) auto
qed simp

lemma trie_lookup_insert:
  "trie_height t \<le> length bs \<Longrightarrow> length p \<le> length bs \<Longrightarrow>
    trie_lookup (trie_insert f p t) bs = (if prefix p bs then f (trie_lookup t bs) else trie_lookup t bs)"
proof (induction f p t arbitrary: bs rule: trie_insert.induct)
  case (1 f t)
  then show ?case by (simp add: trie_lookup_map)
next
  case (2 f b p v)
  then show ?case by (cases bs) auto
next
  case (3 f b p l r)
  then show ?case by (cases bs) auto
qed

subsection \<open>Deep merge\<close>

function ref_merge :: "mval \<Rightarrow> mval \<Rightarrow> mval" where
  "ref_merge (VArray xs) (VArray ys) = VArray (xs @ ys)"
| "ref_merge (VMap xs) (VMap ys) =
     VMap (map (\<lambda>(k, v). (k, case map_of ys k of None \<Rightarrow> v | Some u \<Rightarrow> ref_merge v u)) xs @
       filter (\<lambda>(k, _). k \<notin> fst ` set xs) ys)"
| "ref_merge (VString s) y = y"
| "ref_merge (VArray xs) (VString s) = VString s"
| "ref_merge (VArray xs) (VMap ys) = VMap ys"
| "ref_merge (VMap xs) (VString s) = VString s"
| "ref_merge (VMap xs) (VArray ys) = VArray ys"
  by pat_completeness auto
termination
proof (relation "measure (\<lambda>(x, _). size x)", goal_cases)
  case (2 xs ys p k v u)
  then have "(k, v) \<in> set xs" by simp
  then have "size v < Suc (size_list (size_prod (\<lambda>_. 0) size) xs)"
    using size_list_estimation [of "(k, v)" xs "size v" "size_prod (\<lambda>_. 0) size"]
    by (induction xs) auto
  then show ?case by simp
qed auto

lemma ref_merge_zip:
  assumes "length ks = length vs" "length ks = length us" "distinct ks"
  shows "ref_merge (VMap (zip ks vs)) (VMap (zip ks us)) = VMap (zip ks (map2 ref_merge vs us))"
proof -
  have upd: "map_of (zip ks us) (ks ! i) = Some (us ! i)" if "i < length ks" for i
    using assms that by (simp add: map_of_zip_nth)
  have keys: "fst ` set (zip ks vs) = set ks"
    using assms by (metis list.set_map map_fst_zip)
  have none: "filter (\<lambda>(k, _). k \<notin> fst ` set (zip ks vs)) (zip ks us) = []"
    unfolding keys by (auto simp: filter_empty_conv dest: set_zip_leftD)
  have "map (\<lambda>(k, v). (k, case map_of (zip ks us) k of None \<Rightarrow> v | Some u \<Rightarrow> ref_merge v u))
      (zip ks vs) = zip ks (map2 ref_merge vs us)"
    using assms upd by (intro nth_equalityI) (auto simp del: map_of_eq_Some_iff)
  with none show ?thesis by simp
qed

subsection \<open>The byte format and the reader\<close>

definition strs_enc :: "string list \<Rightarrow> bytes" where
  "strs_enc = seq_enc (seq_enc char_enc)"

definition strs_dec :: "bytes \<Rightarrow> (string list \<times> bytes) option" where
  "strs_dec = seq_dec (seq_dec char_dec)"

lemma strs_codec: "prefix_codec (\<lambda>_. True) strs_enc strs_dec"
  using seq_codec [OF str_codec.prefix_codec_axioms]
  by (simp add: strs_enc_def strs_dec_def prefix_codec_def)

definition entry_enc :: "firehol_entry \<Rightarrow> bytes" where
  "entry_enc e =
     strs_enc (entry_file_name e) @ strs_enc (entry_source_file_date e) @
     strs_enc (entry_list_source_url e) @ strs_enc (entry_maintainer_url e) @
     strs_enc (entry_maintainer e) @ strs_enc (entry_category e)"

definition entry_dec :: "bytes \<Rightarrow> (firehol_entry \<times> bytes) option" where
  "entry_dec b0 =
     (case strs_dec b0 of None \<Rightarrow> None | Some (f, b1) \<Rightarrow>
      case strs_dec b1 of None \<Rightarrow> None | Some (d, b2) \<Rightarrow>
      case strs_dec b2 of None \<Rightarrow> None | Some (l, b3) \<Rightarrow>
      case strs_dec b3 of None \<Rightarrow> None | Some (u, b4) \<Rightarrow>
      case strs_dec b4 of None \<Rightarrow> None | Some (m, b5) \<Rightarrow>
      case strs_dec b5 of None \<Rightarrow> None | Some (c, b6) \<Rightarrow>
        Some (\<lparr>entry_file_name = f, entry_source_file_date = d, entry_list_source_url = l,
          entry_maintainer_url = u, entry_maintainer = m, entry_category = c\<rparr>, b6))"

lemma strs_dec_enc [simp]: "strs_dec (strs_enc xs @ r) = Some (xs, r)"
  by (rule prefix_codec.dec_enc [OF strs_codec TrueI])

interpretation entry_codec: prefix_codec "\<lambda>_. True" entry_enc entry_dec
  by unfold_locales (simp add: entry_enc_def entry_dec_def)

fun trie_enc :: "firehol_entry trie \<Rightarrow> bytes" where
  "trie_enc (Leaf None) = [0]"
| "trie_enc (Leaf (Some e)) = 1 # entry_enc e"
| "trie_enc (Node l r) = 2 # trie_enc l @ trie_enc r"

fun trie_dec :: "nat \<Rightarrow> bytes \<Rightarrow> (firehol_entry trie \<times> bytes) option" where
  "trie_dec 0 bs = None"
| "trie_dec (Suc n) bs =
     (case bs of
        [] \<Rightarrow> None
      | t # b \<Rightarrow>
          if t = 0 then Some (Leaf None, b)
          else if t = 1 then
            (case entry_dec b of None \<Rightarrow> None | Some (e, b') \<Rightarrow> Some (Leaf (Some e), b'))
          else if t = 2 then
            (case trie_dec n b of None \<Rightarrow> None | Some (l, b') \<Rightarrow>
             case trie_dec n b' of None \<Rightarrow> None | Some (r, b'') \<Rightarrow> Some (Node l r, b''))
          else None)"

lemma trie_dec_enc: "trie_height t < n \<Longrightarrow> trie_dec n (trie_enc t @ b) = Some (t, b)"
proof (induction t arbitrary: n b)
  case (Leaf v)
  then obtain m where "n = Suc m" by (cases n) auto
  then show ?case using entry_codec.dec_enc by (cases v) auto
next
  case (Node l r)
  then obtain m where "n = Suc m" "trie_height l < m" "trie_height r < m" by (cases n) auto
  with Node.IH show ?case by simp
qed

text \<open>The entry of each leaf; \<open>None\<close> when some value is no entry.\<close>

fun leaf_entries :: "mval trie \<Rightarrow> firehol_entry trie option" where
  "leaf_entries (Leaf None) = Some (Leaf None)"
| "leaf_entries (Leaf (Some v)) = map_option (\<lambda>e. Leaf (Some e)) (entry_of_value v)"
| "leaf_entries (Node l r) =
     (case (leaf_entries l, leaf_entries r) of
        (Some l', Some r') \<Rightarrow> Some (Node l' r') | _ \<Rightarrow> None)"

lemma leaf_entries_height: "leaf_entries t = Some t' \<Longrightarrow> trie_height t' = trie_height t"
  by (induction t arbitrary: t' rule: leaf_entries.induct) (auto split: option.splits)

lemma leaf_entries_lookup:
  "leaf_entries t = Some t' \<Longrightarrow>
    trie_lookup t' bs = (case trie_lookup t bs of None \<Rightarrow> None | Some v \<Rightarrow> entry_of_value v)"
proof (induction t arbitrary: t' bs rule: leaf_entries.induct)
  case (3 l r)
  then show ?case by (cases bs) (auto split: option.splits)
qed (auto split: option.splits)

definition ref_insert_with ::
  "mval trie \<Rightarrow> cidr \<Rightarrow> (mval option \<Rightarrow> mval option) \<Rightarrow> string + mval trie" where
  "ref_insert_with t n f =
     (if trie_height t \<le> 32 then Inr (trie_insert f (take (cidr_len n) (addr_bits (cidr_addr n))) t)
      else Inl ''tree too deep'')"

definition ref_to_bytes :: "mval trie \<Rightarrow> string + bytes" where
  "ref_to_bytes t =
     (case leaf_entries t of
        None \<Rightarrow> Inl ''unsupported value''
      | Some t' \<Rightarrow> if trie_height t' \<le> 32 then Inr (trie_enc t') else Inl ''tree too deep'')"

definition ref_writer :: "(mval trie, cidr) writer_api" where
  "ref_writer = \<lparr>w_new = (\<lambda>_. Leaf None), w_insert_with = ref_insert_with,
     w_to_bytes = ref_to_bytes, w_merge_deep = ref_merge\<rparr>"

definition ref_content :: "mval trie \<Rightarrow> ipv4 \<Rightarrow> mval option" where
  "ref_content t a = trie_lookup t (addr_bits a)"

definition ref_from_bytes :: "bytes \<Rightarrow> geo_error + firehol_entry trie" where
  "ref_from_bytes bs =
     (case trie_dec 33 bs of
        Some (t, []) \<Rightarrow> Inr t
      | _ \<Rightarrow> Inl (OtherGeoError ''invalid metadata''))"

fun ref_lookup :: "firehol_entry trie \<Rightarrow> ip_addr \<Rightarrow> geo_error + firehol_entry" where
  "ref_lookup t (V4 a) = (case trie_lookup t (addr_bits a) of None \<Rightarrow> Inl NotFound | Some e \<Rightarrow> Inr e)"
| "ref_lookup t (V6 a) = Inl IPv4Only"

fun trie_nodes :: "'v trie \<Rightarrow> nat" where
  "trie_nodes (Leaf v) = 0"
| "trie_nodes (Node l r) = Suc (trie_nodes l + trie_nodes r)"

definition ref_geoip :: "firehol_entry trie geoip_api" where
  "ref_geoip = \<lparr>g_from_bytes = ref_from_bytes, g_lookup = ref_lookup,
     g_node_count = (\<lambda>t. of_nat (trie_nodes t))\<rparr>"

lemmas ref_defs [api_simps] =
  ref_ipnet_def ref_chrono_def ref_writer_def ref_geoip_def ref_insert_with_def ref_to_bytes_def
  ref_from_bytes_def

lemma ref_from_to_bytes:
  assumes "ref_to_bytes t = Inr bs"
  shows "\<exists>t'. leaf_entries t = Some t' \<and> ref_from_bytes bs = Inr t'"
proof -
  from assms obtain t' where t': "leaf_entries t = Some t'" "trie_height t' \<le> 32" "bs = trie_enc t'"
    by (auto simp: ref_to_bytes_def split: option.splits if_splits)
  then have "trie_dec 33 (trie_enc t' @ []) = Some (t', [])" by (intro trie_dec_enc) simp
  with t' show ?thesis by (simp add: ref_from_bytes_def)
qed

interpretation ref_mmdb: mmdb_writer ref_writer cidr_covers ref_content
proof unfold_locales
  fix w n f w' a
  assume "w_insert_with ref_writer w n f = Inr w'"
  then have h: "trie_height w \<le> length (addr_bits a)"
    and w': "w' = trie_insert f (take (cidr_len n) (addr_bits (cidr_addr n))) w"
    by (auto simp: ref_writer_def ref_insert_with_def split: if_splits)
  from h show "ref_content w' a = (if cidr_covers n a then f (ref_content w a) else ref_content w a)"
    by (simp add: w' ref_content_def cidr_covers_def trie_lookup_insert prefix_take_iff)
qed (simp_all add: ref_writer_def ref_content_def ref_merge_zip del: ref_merge.simps(2))

interpretation ref_format: mmdb_format ref_writer cidr_covers ref_content ref_geoip
proof unfold_locales
  fix w bs rd a
  assume b: "w_to_bytes ref_writer w = Inr bs" and r: "g_from_bytes ref_geoip bs = Inr rd"
  then have le: "leaf_entries w = Some rd"
    using ref_from_to_bytes [of w bs] by (auto simp: ref_writer_def ref_geoip_def)
  then have look: "g_lookup ref_geoip rd (V4 a) =
      (case (case ref_content w a of None \<Rightarrow> None | Some v \<Rightarrow> entry_of_value v) of
         None \<Rightarrow> Inl NotFound | Some e \<Rightarrow> Inr e)"
    using leaf_entries_lookup [OF le, of "addr_bits a"] by (simp add: ref_geoip_def ref_content_def)
  then show "ref_content w a = None \<Longrightarrow> g_lookup ref_geoip rd (V4 a) = Inl NotFound" by simp
  from look show "ref_content w a = Some v \<Longrightarrow> entry_of_value v = Some e \<Longrightarrow>
      g_lookup ref_geoip rd (V4 a) = Inr e" for v e by simp
qed (auto simp: ref_writer_def ref_geoip_def dest: ref_from_to_bytes)

end
