(* ===== verification/Mmdb.thy ===== *)
theory Mmdb
  imports Metrics Fs Reference
begin

text \<open>
  \<open>src/mmdb.rs\<close>: the hot-swappable database snapshot. \<open>load\<close>, \<open>reload_if_changed\<close> and
  \<open>lookup\<close> on a store that holds at most one snapshot. Each operation that touches the file
  system takes the view it has at each of its calls, so that the file may change between
  reading the modification time and reading the content.
\<close>

subsection \<open>State\<close>

record 'rd snapshot =
  reader :: 'rd
  modified :: "system_time option"

record 'rd mmdb =
  snapshot :: "'rd snapshot option"

definition mmdb_new :: "'rd mmdb" where
  "mmdb_new = \<lparr>snapshot = None\<rparr>"

datatype mmdb_error =
    Stat_Failed path io_error
  | Read_Failed path io_error
  | Parse_Failed path geo_error

text \<open>What \<open>fs::metadata(..).modified()\<close> and \<open>fs::read\<close> return at one moment.\<close>

record os_view =
  os_modified :: "path \<Rightarrow> io_error + system_time"
  os_read :: "path \<Rightarrow> io_error + bytes"

definition view_of :: "fs \<Rightarrow> os_view" where
  "view_of fs =
     \<lparr>os_modified = (\<lambda>p. case fs p of None \<Rightarrow> Inl IoNotFound | Some f \<Rightarrow> Inr (file_mtime f)),
      os_read = (\<lambda>p. case fs p of None \<Rightarrow> Inl IoNotFound | Some f \<Rightarrow> Inr (file_content f))\<rparr>"

text \<open>\<open>Path::to_string_lossy\<close> of an absolute path.\<close>

definition path_str :: "path \<Rightarrow> string" where
  "path_str p = concat (map (\<lambda>c. CHR ''/'' # c) p)"

subsection \<open>Operations\<close>

definition load_locked ::
  "'rd geoip_api \<Rightarrow> os_view \<Rightarrow> path \<Rightarrow> system_time option \<Rightarrow> 'rd mmdb
    \<Rightarrow> (mmdb_error + unit) \<times> 'rd mmdb \<times> metric_event list" where
  "load_locked G vw p m st =
     (case os_read vw p of
        Inl e \<Rightarrow> (Err (Read_Failed p e), st, [])
      | Inr bs \<Rightarrow>
          (case g_from_bytes G bs of
             Inl e \<Rightarrow> (Err (Parse_Failed p e), st, [])
           | Inr rd \<Rightarrow>
               (Ok (), st\<lparr>snapshot := Some \<lparr>reader = rd, modified = m\<rparr>\<rparr>,
                [Set_Gauge MMDB_NODE_COUNT (uint (g_node_count G rd)),
                 Inc MMDB_FILE_LOADED [path_str p]])))"

definition load ::
  "'rd geoip_api \<Rightarrow> os_view \<Rightarrow> os_view \<Rightarrow> path \<Rightarrow> 'rd mmdb
    \<Rightarrow> (mmdb_error + unit) \<times> 'rd mmdb \<times> metric_event list" where
  "load G vw1 vw2 p st = load_locked G vw2 p (ok_of (os_modified vw1 p)) st"

definition reload_if_changed ::
  "'rd geoip_api \<Rightarrow> os_view \<Rightarrow> os_view \<Rightarrow> path \<Rightarrow> 'rd mmdb
    \<Rightarrow> (mmdb_error + bool) \<times> 'rd mmdb \<times> metric_event list" where
  "reload_if_changed G vw1 vw2 p st =
     (case os_modified vw1 p of
        Inl e \<Rightarrow> (Err (Stat_Failed p e), st, [])
      | Inr m \<Rightarrow>
          (if (case snapshot st of None \<Rightarrow> False | Some s \<Rightarrow> modified s = Some m)
           then (Ok False, st, [])
           else case load_locked G vw2 p (Some m) st of
               (Inl e, st', evs) \<Rightarrow> (Err e, st', evs)
             | (Inr _, st', evs) \<Rightarrow> (Ok True, st', evs)))"

definition lookup ::
  "'rd geoip_api \<Rightarrow> 'rd mmdb \<Rightarrow> ip_addr \<Rightarrow> (firehol_entry \<Rightarrow> 'r) \<Rightarrow> 'r option" where
  "lookup G st addr f =
     (case snapshot st of
        None \<Rightarrow> None
      | Some s \<Rightarrow>
          (case g_lookup G (reader s) addr of
             Inr e \<Rightarrow> Some (f e)
           | Inl NotFound \<Rightarrow> None
           | Inl IPv4Only \<Rightarrow> None
           | Inl (OtherGeoError _) \<Rightarrow> None))"

lemmas mmdb_defs = load_def reload_if_changed_def load_locked_def

lemma lookup_map: "lookup G st addr f = map_option f (lookup G st addr id)"
  by (auto simp: lookup_def split: option.splits sum.splits geo_error.splits)

lemma lookup_Some_iff:
  "lookup G st addr f = Some r \<longleftrightarrow>
     (\<exists>s e. snapshot st = Some s \<and> g_lookup G (reader s) addr = Inr e \<and> r = f e)"
  by (auto simp: lookup_def split: option.splits sum.splits geo_error.splits)

subsection \<open>The contract of a database store\<close>

text \<open>
  What the watcher, the updater and the request handler rely on: a refused or skipped reload
  changes nothing, and a reload that happened answers every lookup from the file's parsed
  content.
\<close>

locale database_store =
  fixes parse_db :: "bytes \<Rightarrow> 'db option"
    and query :: "'db \<Rightarrow> ip_addr \<Rightarrow> 'r option"
    and find :: "'s \<Rightarrow> ip_addr \<Rightarrow> 'r option"
    and reload :: "os_view \<Rightarrow> os_view \<Rightarrow> path \<Rightarrow> 's \<Rightarrow> ('e + bool) \<times> 's \<times> 'ev"
  assumes reload_kept: "reload vw1 vw2 p s = (r, s', ev) \<Longrightarrow> r \<noteq> Inr True \<Longrightarrow> s' = s"
    and reload_done:
      "reload vw1 vw2 p s = (Inr True, s', ev) \<Longrightarrow>
        \<exists>bs db. os_read vw2 p = Inr bs \<and> parse_db bs = Some db \<and> find s' = query db"
begin

text \<open>Any sequence of reloads of one file.\<close>

fun reloads :: "path \<Rightarrow> (os_view \<times> os_view) list \<Rightarrow> 's \<Rightarrow> 's" where
  "reloads p [] s = s"
| "reloads p (v # vs) s = reloads p vs (fst (snd (reload (fst v) (snd v) p s)))"

text \<open>A database that some view of the sequence showed, completely.\<close>

definition shown :: "path \<Rightarrow> (os_view \<times> os_view) list \<Rightarrow> 'db \<Rightarrow> bool" where
  "shown p vs db \<longleftrightarrow> (\<exists>v\<in>set vs. \<exists>bs. os_read (snd v) p = Inr bs \<and> parse_db bs = Some db)"

text \<open>Lookups are always answered from one complete version of the database.\<close>

lemma reloads_one_version:
  "find (reloads p vs s) = find s \<or> (\<exists>db. shown p vs db \<and> find (reloads p vs s) = query db)"
proof (induction vs arbitrary: s)
  case (Cons v vs)
  obtain r s' ev where r: "reload (fst v) (snd v) p s = (r, s', ev)"
    by (metis prod_cases3)
  have ext: "shown p vs db \<Longrightarrow> shown p (v # vs) db" for db by (simp add: shown_def)
  have now: "find s' = find s \<or> (\<exists>db. shown p (v # vs) db \<and> find s' = query db)"
  proof (cases "r = Inr True")
    case True
    with r reload_done [of "fst v" "snd v" p s s' ev] show ?thesis
      unfolding shown_def by (metis list.set_intros(1))
  qed (use reload_kept [OF r] in simp)
  from Cons.IH [of s'] now ext show ?case by (auto simp: r)
qed simp

end

definition parse_db :: "'rd geoip_api \<Rightarrow> bytes \<Rightarrow> 'rd option" where
  "parse_db G bs = ok_of (g_from_bytes G bs)"

definition query_db :: "'rd geoip_api \<Rightarrow> 'rd \<Rightarrow> ip_addr \<Rightarrow> firehol_entry option" where
  "query_db G rd addr = ok_of (g_lookup G rd addr)"

definition find_entry :: "'rd geoip_api \<Rightarrow> 'rd mmdb \<Rightarrow> ip_addr \<Rightarrow> firehol_entry option" where
  "find_entry G st addr = lookup G st addr id"

lemma find_entry_snapshot: "snapshot st = Some s \<Longrightarrow> find_entry G st = query_db G (reader s)"
  by (rule ext) (auto simp: find_entry_def query_db_def lookup_def split: sum.splits geo_error.splits)

lemma find_entry_None: "snapshot st = None \<Longrightarrow> find_entry G st = (\<lambda>_. None)"
  by (rule ext) (simp add: find_entry_def lookup_def)

lemma load_locked_Ok_iff:
  "load_locked G vw p m st = (Inr u, st', evs) \<longleftrightarrow>
     (\<exists>bs rd. os_read vw p = Inr bs \<and> g_from_bytes G bs = Inr rd \<and>
        st' = st\<lparr>snapshot := Some \<lparr>reader = rd, modified = m\<rparr>\<rparr> \<and>
        evs = [Set_Gauge MMDB_NODE_COUNT (uint (g_node_count G rd)), Inc MMDB_FILE_LOADED [path_str p]])"
  by (auto simp: load_locked_def split: sum.splits)

lemma load_locked_Err:
  "load_locked G vw p m st = (Inl e, st', evs) \<Longrightarrow> st' = st \<and> evs = []"
  by (auto simp: load_locked_def split: sum.splits)

lemma reload_kept_unless_True:
  "reload_if_changed G vw1 vw2 p st = (r, st', evs) \<Longrightarrow> r \<noteq> Inr True \<Longrightarrow> st' = st \<and> evs = []"
  by (auto simp: reload_if_changed_def dest: load_locked_Err
      split: sum.splits if_splits prod.splits)

lemma reload_True_iff:
  "reload_if_changed G vw1 vw2 p st = (Inr True, st', evs) \<longleftrightarrow>
     (\<exists>m. os_modified vw1 p = Inr m \<and> (\<forall>s. snapshot st = Some s \<longrightarrow> modified s \<noteq> Some m) \<and>
        load_locked G vw2 p (Some m) st = (Inr (), st', evs))"
  by (auto simp: reload_if_changed_def split: sum.splits if_splits prod.splits option.splits)

interpretation snapshot_store:
  database_store "parse_db G" "query_db G" "find_entry G" "reload_if_changed G"
proof unfold_locales
  fix vw1 vw2 p s s' and r :: "mmdb_error + bool" and ev
  show "reload_if_changed G vw1 vw2 p s = (r, s', ev) \<Longrightarrow> r \<noteq> Inr True \<Longrightarrow> s' = s"
    using reload_kept_unless_True by blast
next
  fix vw1 vw2 p s s' ev
  assume "reload_if_changed G vw1 vw2 p s = (Inr True, s', ev)"
  then obtain m bs rd where "os_read vw2 p = Inr bs" "g_from_bytes G bs = Inr rd"
    "s' = s\<lparr>snapshot := Some \<lparr>reader = rd, modified = Some m\<rparr>\<rparr>"
    by (auto simp: reload_True_iff load_locked_Ok_iff)
  then show "\<exists>bs db. os_read vw2 p = Inr bs \<and> parse_db G bs = Some db \<and> find_entry G s' = query_db G db"
    by (auto simp: parse_db_def find_entry_snapshot)
qed

section \<open>Properties\<close>


text \<open>The stored database of one network, as the reference format encodes it.\<close>

definition tiny_db :: bytes where
  "tiny_db = trie_enc (Node (Leaf None) (Leaf (Some default_entry)))"

definition tiny_fs :: "system_time \<Rightarrow> fs" where
  "tiny_fs t = (\<lambda>_. None)([''firehol.mmdb''] \<mapsto> \<lparr>file_content = tiny_db, file_mtime = t\<rparr>)"

lemma tiny_db_readable:
  "g_from_bytes ref_geoip tiny_db = Inr (Node (Leaf None) (Leaf (Some default_entry)))"
  by code_simp

lemma tiny_view:
  "os_modified (view_of (tiny_fs t)) [''firehol.mmdb''] = Inr t"
  "os_read (view_of (tiny_fs t)) [''firehol.mmdb''] = Inr tiny_db"
  by (simp_all add: view_of_def tiny_fs_def)

lemma tiny_reload:
  "reload_if_changed ref_geoip (view_of (tiny_fs t)) (view_of (tiny_fs u)) [''firehol.mmdb''] mmdb_new =
     (Ok True, \<lparr>snapshot = Some \<lparr>reader = Node (Leaf None) (Leaf (Some default_entry)), modified = Some t\<rparr>\<rparr>,
      [Set_Gauge MMDB_NODE_COUNT 1, Inc MMDB_FILE_LOADED [''/firehol.mmdb'']])"
  by (simp add: reload_if_changed_def load_locked_def mmdb_new_def tiny_view tiny_db_readable path_str_def
      ref_geoip_def [THEN arg_cong, of g_node_count])


end
