(* ===== verification/Hot_Reload.thy ===== *)
theory Hot_Reload
  imports Mmdb
begin

text \<open>
  Interleavings of one loader (the operations of \<open>Mmdb\<close>, serialised by \<open>load_lock\<close>) with
  writers of the database file. A load is two steps: its first looks at the modification time,
  its second reads the content, and the file may be replaced or removed in between.
\<close>

datatype pending = Reloading fs | Loading fs

record 'rd race =
  rc_fs :: fs
  rc_clock :: system_time \<comment> \<open>the latest modification time the file ever had\<close>
  rc_store :: "'rd mmdb"
  rc_pending :: "pending option" \<comment> \<open>the holder of \<open>load_lock\<close> and the file system it saw first\<close>

definition race_init :: "fs \<Rightarrow> system_time \<Rightarrow> 'rd race" where
  "race_init fs t = \<lparr>rc_fs = fs, rc_clock = t, rc_store = mmdb_new, rc_pending = None\<rparr>"

text \<open>Every new version of the file has a later modification time than all versions before.\<close>

inductive race_step :: "'rd geoip_api \<Rightarrow> path \<Rightarrow> 'rd race \<Rightarrow> 'rd race \<Rightarrow> bool"
  for G :: "'rd geoip_api" and p :: path where
  replace: "rc_clock s < file_mtime f \<Longrightarrow>
     race_step G p s (s\<lparr>rc_fs := (rc_fs s)(p \<mapsto> f), rc_clock := file_mtime f\<rparr>)"
| remove: "race_step G p s (s\<lparr>rc_fs := (rc_fs s)(p := None)\<rparr>)"
| begin_reload: "rc_pending s = None \<Longrightarrow> race_step G p s (s\<lparr>rc_pending := Some (Reloading (rc_fs s))\<rparr>)"
| begin_load: "rc_pending s = None \<Longrightarrow> race_step G p s (s\<lparr>rc_pending := Some (Loading (rc_fs s))\<rparr>)"
| end_reload: "rc_pending s = Some (Reloading fs0) \<Longrightarrow>
     reload_if_changed G (view_of fs0) (view_of (rc_fs s)) p (rc_store s) = (r, st', evs) \<Longrightarrow>
     race_step G p s (s\<lparr>rc_store := st', rc_pending := None\<rparr>)"
| end_load: "rc_pending s = Some (Loading fs0) \<Longrightarrow>
     load G (view_of fs0) (view_of (rc_fs s)) p (rc_store s) = (r', st', evs) \<Longrightarrow>
     race_step G p s (s\<lparr>rc_store := st', rc_pending := None\<rparr>)"

inductive race_reachable :: "'rd geoip_api \<Rightarrow> path \<Rightarrow> 'rd race \<Rightarrow> bool"
  for G :: "'rd geoip_api" and p :: path where
  init: "(\<And>f. fs p = Some f \<Longrightarrow> file_mtime f \<le> t) \<Longrightarrow> race_reachable G p (race_init fs t)"
| step: "race_reachable G p s \<Longrightarrow> race_step G p s s' \<Longrightarrow> race_reachable G p s'"

inductive_cases race_stepE: "race_step G p s s'"

subsection \<open>The invariant\<close>

definition file_old :: "path \<Rightarrow> system_time \<Rightarrow> fs \<Rightarrow> bool" where
  "file_old p t fs \<longleftrightarrow> (\<forall>f. fs p = Some f \<longrightarrow> file_mtime f \<le> t)"

definition snapshot_fresh :: "'rd geoip_api \<Rightarrow> path \<Rightarrow> system_time \<Rightarrow> fs \<Rightarrow> 'rd snapshot \<Rightarrow> bool" where
  "snapshot_fresh G p t fs sn \<longleftrightarrow>
     (\<forall>m. modified sn = Some m \<longrightarrow>
        m \<le> t \<and>
        (\<forall>f. fs p = Some f \<longrightarrow> file_mtime f = m \<longrightarrow>
           g_from_bytes G (file_content f) = Inr (reader sn)))"

definition race_inv :: "'rd geoip_api \<Rightarrow> path \<Rightarrow> 'rd race \<Rightarrow> bool" where
  "race_inv G p s \<longleftrightarrow>
     file_old p (rc_clock s) (rc_fs s) \<and>
     (\<forall>fs0. rc_pending s = Some (Reloading fs0) \<or> rc_pending s = Some (Loading fs0) \<longrightarrow>
        file_old p (rc_clock s) fs0) \<and>
     (\<forall>sn. snapshot (rc_store s) = Some sn \<longrightarrow> snapshot_fresh G p (rc_clock s) (rc_fs s) sn)"

lemma view_of_simps [simp]:
  "os_modified (view_of fs) p = Inr m \<longleftrightarrow> (\<exists>f. fs p = Some f \<and> m = file_mtime f)"
  "os_read (view_of fs) p = Inr bs \<longleftrightarrow> (\<exists>f. fs p = Some f \<and> bs = file_content f)"
  by (auto simp: view_of_def split: option.splits)

text \<open>
  A snapshot stamped with a time read earlier is fresh: either the file is still the version
  that was read, or its time is later than the stamp.
\<close>

lemma load_locked_fresh:
  assumes "load_locked G (view_of fs) p m st = (r, st', evs)"
    and "\<forall>t. m = Some t \<longrightarrow> t \<le> clock"
    and "\<forall>sn. snapshot st = Some sn \<longrightarrow> snapshot_fresh G p clock fs sn"
    and "snapshot st' = Some sn"
  shows "snapshot_fresh G p clock fs sn"
proof (cases r)
  case (Inl e)
  with assms show ?thesis by (auto dest: load_locked_Err)
next
  case (Inr u)
  with assms(1) obtain f rd where "fs p = Some f" "g_from_bytes G (file_content f) = Inr rd"
    "st' = st\<lparr>snapshot := Some \<lparr>reader = rd, modified = m\<rparr>\<rparr>"
    by (auto simp: load_locked_Ok_iff)
  with assms(2,4) show ?thesis by (auto simp: snapshot_fresh_def)
qed

lemma reload_fresh:
  assumes "reload_if_changed G (view_of fs0) (view_of fs) p st = (r, st', evs)"
    and "file_old p clock fs0"
    and "\<forall>sn. snapshot st = Some sn \<longrightarrow> snapshot_fresh G p clock fs sn"
    and "snapshot st' = Some sn"
  shows "snapshot_fresh G p clock fs sn"
proof (cases "r = Inr True")
  case True
  with assms(1) obtain m where "os_modified (view_of fs0) p = Inr m"
    "load_locked G (view_of fs) p (Some m) st = (Inr (), st', evs)"
    by (auto simp only: reload_True_iff)
  with assms show ?thesis
    by (intro load_locked_fresh [of G fs p "Some m" st "Inr ()" st' evs]) (auto simp: file_old_def)
next
  case False
  with assms show ?thesis by (auto dest: reload_kept_unless_True)
qed

lemma load_fresh:
  assumes "load G (view_of fs0) (view_of fs) p st = (r, st', evs)"
    and "file_old p clock fs0"
    and "\<forall>sn. snapshot st = Some sn \<longrightarrow> snapshot_fresh G p clock fs sn"
    and "snapshot st' = Some sn"
  shows "snapshot_fresh G p clock fs sn"
proof -
  have "t \<le> clock" if "ok_of (os_modified (view_of fs0) p) = Some t" for t
    using that assms(2) by (cases "os_modified (view_of fs0) p") (auto simp: file_old_def)
  with assms(1,3,4) show ?thesis unfolding load_def by (blast intro: load_locked_fresh)
qed

lemma race_step_inv: "race_step G p s s' \<Longrightarrow> race_inv G p s \<Longrightarrow> race_inv G p s'"
proof (induction rule: race_step.induct)
  case (replace s f)
  then show ?case by (fastforce simp: race_inv_def file_old_def snapshot_fresh_def)
next
  case (remove s)
  then show ?case by (fastforce simp: race_inv_def file_old_def snapshot_fresh_def)
next
  case (end_reload s fs0 r st' evs)
  then show ?case by (auto simp: race_inv_def intro: reload_fresh)
next
  case (end_load s fs0 r' st' evs)
  then show ?case by (auto simp: race_inv_def intro: load_fresh)
qed (auto simp: race_inv_def)

lemma race_reachable_inv: "race_reachable G p s \<Longrightarrow> race_inv G p s"
proof (induction rule: race_reachable.induct)
  case (init fs t)
  then show ?case by (simp add: race_inv_def race_init_def mmdb_new_def file_old_def)
qed (rule race_step_inv)

text \<open>A store whose stamps can be trusted.\<close>

definition store_fresh :: "'rd geoip_api \<Rightarrow> path \<Rightarrow> system_time \<Rightarrow> fs \<Rightarrow> 'rd mmdb \<Rightarrow> bool" where
  "store_fresh G p t fs st \<longleftrightarrow> (\<forall>sn. snapshot st = Some sn \<longrightarrow> snapshot_fresh G p t fs sn)"

text \<open>A reload that succeeds, skipped or not, leaves the file's content in such a store.\<close>

lemma reload_Ok_current:
  assumes "store_fresh G p t fs st"
    and "reload_if_changed G (view_of fs) (view_of fs) p st = (Ok b, st', evs)"
  shows "\<exists>f rd. fs p = Some f \<and> g_from_bytes G (file_content f) = Inr rd \<and> find_entry G st' = query_db G rd"
proof -
  from assms(2) obtain f where f: "fs p = Some f"
    by (auto simp: reload_if_changed_def view_of_def split: option.splits)
  show ?thesis
  proof (cases b)
    case True
    with assms(2) snapshot_store.reload_done [of G "view_of fs" "view_of fs" p st st' evs] f
    show ?thesis by (auto simp: parse_db_def) (metis Inr_inject is_ok.cases ok_of.simps option.inject option.distinct(1))
  next
    case False
    with assms(2) f obtain sn where sn: "snapshot st = Some sn" "modified sn = Some (file_mtime f)" "st' = st"
      by (auto simp: reload_if_changed_def view_of_def split: option.splits if_splits sum.splits prod.splits)
    with assms(1) f have "g_from_bytes G (file_content f) = Inr (reader sn)"
      by (auto simp: store_fresh_def snapshot_fresh_def)
    with f sn show ?thesis by (auto simp: find_entry_snapshot)
  qed
qed

section \<open>Properties\<close>

text \<open>
  C7. No lost update: in every reachable interleaving of loads with replacements and removals
  of the file, a reload that returns successfully while the file is at rest leaves the store
  answering every lookup from the current content of the file. In particular a skipped reload
  never keeps a stale snapshot, although the modification time and the content are read
  separately.
\<close>

theorem reload_no_lost_update:
  assumes "race_reachable G p s"
    and "reload_if_changed G (view_of (rc_fs s)) (view_of (rc_fs s)) p (rc_store s) = (Ok b, st', evs)"
  shows "\<exists>f rd. rc_fs s p = Some f \<and> g_from_bytes G (file_content f) = Inr rd \<and>
    find_entry G st' = query_db G rd"
  by (rule reload_Ok_current [of G p "rc_clock s", OF _ assms(2)])
     (use race_reachable_inv [OF assms(1)] in \<open>simp add: race_inv_def store_fresh_def\<close>)

text \<open>The file is replaced between the two steps of a load; the next reload picks it up.\<close>

theorem reload_no_lost_update_witness:
  "\<exists>s st' evs. race_reachable ref_geoip [''firehol.mmdb''] s \<and>
     snapshot (rc_store s) \<noteq> None \<and> rc_fs s = tiny_fs 9 \<and>
     reload_if_changed ref_geoip (view_of (rc_fs s)) (view_of (rc_fs s)) [''firehol.mmdb''] (rc_store s)
       = (Ok True, st', evs) \<and>
     find_entry ref_geoip st' = query_db ref_geoip (Node (Leaf None) (Leaf (Some default_entry)))"
proof -
  let ?p = "[''firehol.mmdb'']"
  let ?rd = "Node (Leaf None) (Leaf (Some default_entry))"
  let ?s0 = "race_init (tiny_fs 5) 5 :: firehol_entry trie race"
  let ?s1 = "?s0\<lparr>rc_pending := Some (Reloading (tiny_fs 5))\<rparr>"
  let ?s2 = "?s1\<lparr>rc_fs := tiny_fs 9, rc_clock := 9\<rparr>"
  let ?st = "\<lparr>snapshot = Some \<lparr>reader = ?rd, modified = Some 5\<rparr>\<rparr>"
  let ?s3 = "?s2\<lparr>rc_store := ?st, rc_pending := None\<rparr>"
  have fs: "(tiny_fs 5)(?p \<mapsto> \<lparr>file_content = tiny_db, file_mtime = 9\<rparr>) = tiny_fs 9"
    by (simp add: tiny_fs_def)
  have r0: "race_reachable ref_geoip ?p ?s0"
    by (rule race_reachable.init) (auto simp: tiny_fs_def)
  have "race_step ref_geoip ?p ?s0 ?s1"
    using race_step.begin_reload [of ?s0 ref_geoip ?p] by (simp add: race_init_def)
  with r0 have r1: "race_reachable ref_geoip ?p ?s1" by (rule race_reachable.step)
  have "race_step ref_geoip ?p ?s1 ?s2"
    using race_step.replace [of ?s1 "\<lparr>file_content = tiny_db, file_mtime = 9\<rparr>" ref_geoip ?p]
    by (simp add: race_init_def fs)
  with r1 have r2: "race_reachable ref_geoip ?p ?s2" by (rule race_reachable.step)
  have "race_step ref_geoip ?p ?s2 ?s3"
    by (rule race_step.end_reload [where ?fs0.0 = "tiny_fs 5"])
       (simp_all add: race_init_def tiny_reload [of 5 9])
  with r2 have r3: "race_reachable ref_geoip ?p ?s3" by (rule race_reachable.step)
  have fs3: "rc_fs ?s3 = tiny_fs 9" "rc_store ?s3 = ?st" by (simp_all add: race_init_def)
  let ?st9 = "\<lparr>snapshot = Some \<lparr>reader = ?rd, modified = Some 9\<rparr>\<rparr>"
  let ?evs = "[Set_Gauge MMDB_NODE_COUNT (uint (g_node_count ref_geoip ?rd)), Inc MMDB_FILE_LOADED [path_str ?p]]"
  have again: "reload_if_changed ref_geoip (view_of (rc_fs ?s3)) (view_of (rc_fs ?s3)) ?p (rc_store ?s3)
      = (Ok True, ?st9, ?evs)"
    by (simp only: fs3) (simp add: reload_if_changed_def load_locked_def tiny_view tiny_db_readable
        del: view_of_simps)
  from reload_no_lost_update [OF r3 again]
  have "find_entry ref_geoip ?st9 = query_db ref_geoip ?rd"
    by (simp only: fs3) (auto simp: tiny_fs_def tiny_db_readable)
  with r3 again fs3 show ?thesis
    by (intro exI [of _ ?s3] exI [of _ ?st9] exI [of _ ?evs]) simp
qed

end
