(* ===== verification/Cli.thy ===== *)
theory Cli
  imports Fs Rust_Str
begin

text \<open>
  \<open>src/cli.rs\<close>: the options with their defaults, and the lenient parser of the log level. The
  command-line library that fills the record stays outside the model.
\<close>

datatype level = ERROR | WARN | INFO | DEBUG | TRACE

record cli =
  log_level :: level
  spoa_listen_adress_metrics_prometheus :: string
  mmdb_path :: path
  spoa_listen_adress :: string
  drop_by_category :: "string list"
  drop_by_file_names :: "string list"
  firehol_repo_path :: path
  firehol_repo_url :: string
  firehol_ignore_country :: bool
  firehol_update_cron_job :: string
  firehol_repo_branch :: string

definition default_cli :: cli where
  "default_cli =
     \<lparr>log_level = INFO, spoa_listen_adress_metrics_prometheus = ''0.0.0.0:8405'',
      mmdb_path = [''firehol.mmdb''], spoa_listen_adress = ''0.0.0.0:9000'',
      drop_by_category = [], drop_by_file_names = [],
      firehol_repo_path = [''firehol-blocklist-ipsets''],
      firehol_repo_url = ''https://github.com/firehol/blocklist-ipsets.git'',
      firehol_ignore_country = True, firehol_update_cron_job = ''@hourly'',
      firehol_repo_branch = ''master''\<rparr>"

text \<open>\<open>u8::to_ascii_lowercase\<close> on every byte.\<close>

definition ascii_lower :: "char \<Rightarrow> char" where
  "ascii_lower c =
     (let n = of_char c :: nat in if 65 \<le> n \<and> n \<le> 90 then char_of (n + 32) else c)"

text \<open>The arms of the match on the lower-case text.\<close>

definition level_of :: "string \<Rightarrow> level" where
  "level_of v =
     (if v = ''error'' then ERROR
      else if v = ''warn'' \<or> v = ''warning'' then WARN
      else if v = ''debug'' then DEBUG
      else if v = ''trace'' then TRACE
      else INFO)"

definition parse_log_level :: "string \<Rightarrow> string + level" where
  "parse_log_level s = Ok (level_of (map ascii_lower (trim s)))"

subsection \<open>Levels are ordered by verbosity\<close>

fun verbosity :: "level \<Rightarrow> nat" where
  "verbosity ERROR = 1"
| "verbosity WARN = 2"
| "verbosity INFO = 3"
| "verbosity DEBUG = 4"
| "verbosity TRACE = 5"

lemma verbosity_inject [simp]: "verbosity l = verbosity m \<longleftrightarrow> l = m"
  by (cases l; cases m) simp_all

instantiation level :: linorder
begin

definition less_eq_level :: "level \<Rightarrow> level \<Rightarrow> bool" where
  "less_eq_level l m \<longleftrightarrow> verbosity l \<le> verbosity m"

definition less_level :: "level \<Rightarrow> level \<Rightarrow> bool" where
  "less_level l m \<longleftrightarrow> verbosity l < verbosity m"

instance
  by standard (auto simp: less_eq_level_def less_level_def)

end

text \<open>\<open>with_max_level\<close> in \<open>main\<close>: what is logged.\<close>

definition logged :: "cli \<Rightarrow> level \<Rightarrow> bool" where
  "logged c l \<longleftrightarrow> l \<le> log_level c"

subsection \<open>Case and white space\<close>

lemma ascii_lower_idem [simp]: "ascii_lower (ascii_lower c) = ascii_lower c"
  by (simp add: ascii_lower_def Let_def)

text \<open>No byte of a white-space encoding is a letter, so changing the case changes none.\<close>

definition letter :: "char \<Rightarrow> bool" where
  "letter c \<longleftrightarrow> (let n = of_char c :: nat in 65 \<le> n \<and> n \<le> 90 \<or> 97 \<le> n \<and> n \<le> 122)"

lemma ascii_lower_eq_iff: "\<not> letter x \<Longrightarrow> ascii_lower c = x \<longleftrightarrow> c = x"
  by (auto simp: ascii_lower_def letter_def Let_def)

lemma white_space_letters: "e \<in> set white_space \<Longrightarrow> \<forall>x\<in>set e. \<not> letter x"
  by (auto simp: white_space_def letter_def)

lemma take_lower: "\<forall>x\<in>set e. \<not> letter x \<Longrightarrow> take k (map ascii_lower s) = e \<longleftrightarrow> take k s = e"
proof (induction e arbitrary: k s)
  case Nil
  then show ?case by simp
next
  case (Cons x e)
  show ?case
  proof (cases k)
    case (Suc j)
    with Cons show ?thesis by (cases s) (simp_all add: ascii_lower_eq_iff)
  qed simp
qed

lemma leading_lower:
  "\<forall>e\<in>set es. \<forall>x\<in>set e. \<not> letter x \<Longrightarrow> leading es (map ascii_lower s) = leading es s"
  by (induction es) (simp_all add: take_lower)

lemma strip_leading_lower:
  assumes "\<forall>e\<in>set es. \<forall>x\<in>set e. \<not> letter x"
  shows "strip_leading es (map ascii_lower s) = map ascii_lower (strip_leading es s)"
  using assms
proof (induction es s rule: strip_leading.induct)
  case (1 es s)
  then show ?case
    by (subst (1 2) strip_leading.simps) (auto simp: leading_lower drop_map split: option.splits)
qed

lemma trim_lower: "trim (map ascii_lower s) = map ascii_lower (trim s)"
  using white_space_letters
  by (simp add: trim_def trim_start_def trim_end_def strip_leading_lower rev_map)

lemma parse_log_level_examples:
  "parse_log_level ''DEBUG'' = Ok DEBUG" "parse_log_level '' warning '' = Ok WARN"
  "parse_log_level ''trace'' = Ok TRACE" "parse_log_level ''error'' = Ok ERROR"
  "parse_log_level ''bogus'' = Ok INFO"
  by code_simp+

section \<open>Properties\<close>

text \<open>
  The log level is parsed leniently: every text is accepted, the case of the letters and white
  space around the text do not matter, and a text that names no level means \<open>INFO\<close>, with which
  errors, warnings and information are logged and nothing more verbose.
\<close>

theorem parse_log_level_lenient:
  "\<exists>l. parse_log_level s = Ok l \<and> parse_log_level (map ascii_lower s) = Ok l \<and> parse_log_level (trim s) = Ok l \<and>
     (map ascii_lower (trim s) \<in> {''error'', ''warn'', ''warning'', ''debug'', ''trace''} \<or>
      {m. logged (c\<lparr>log_level := l\<rparr>) m} = {ERROR, WARN, INFO})"
proof -
  have "logged (c\<lparr>log_level := INFO\<rparr>) m \<longleftrightarrow> m \<in> {ERROR, WARN, INFO}" for m
    by (cases m) (simp_all add: logged_def less_eq_level_def)
  then have "{m. logged (c\<lparr>log_level := INFO\<rparr>) m} = {ERROR, WARN, INFO}" by blast
  moreover have "map ascii_lower (map ascii_lower t) = map ascii_lower t" for t by simp
  then have "parse_log_level (map ascii_lower s) = parse_log_level s"
    by (simp only: parse_log_level_def trim_lower)
  moreover have "v \<in> {''error'', ''warn'', ''warning'', ''debug'', ''trace''} \<or> level_of v = INFO" for v
    by (simp add: level_of_def)
  ultimately show ?thesis by (metis parse_log_level_def trim_idem)
qed

end
