(* ===== verification/Mmdb_Watcher.thy ===== *)
theory Mmdb_Watcher
  imports Mmdb
begin

text \<open>
  \<open>src/mmdb_watcher.rs\<close>: the start of the watcher (which directory is watched, which file
  name is awaited) and its loop over debounced batches of events. Each turn of the loop has the
  two file-system views of the reload it may start; its outcome is what the loop logs.
\<close>

subsection \<open>Start\<close>

datatype watch_error = No_Parent path | No_File_Name path

text \<open>\<open>Path::parent\<close> of an absolute path: never empty, and absent for the root only.\<close>

definition path_parent :: "path \<Rightarrow> path option" where
  "path_parent p = (if p = [] then None else Some (butlast p))"

text \<open>The directory to watch (non-recursively) and the file name to look for.\<close>

definition watch_target :: "path \<Rightarrow> watch_error + path \<times> string" where
  "watch_target p =
     (case path_parent p of
        None \<Rightarrow> Err (No_Parent p)
      | Some dir \<Rightarrow>
          (case path_file_name p of
             None \<Rightarrow> Err (No_File_Name p)
           | Some name \<Rightarrow> Ok (dir, name)))"

text \<open>Creating the debounced watcher and its watch on the directory, as the notify crates answer.\<close>

record watch_api =
  debouncer_new :: "string + unit"
  watch :: "path \<Rightarrow> string + unit"

datatype start_error =
    Bad_Target watch_error
  | Create_Watcher_Failed string
  | Watch_Failed path string

definition watcher_start :: "watch_api \<Rightarrow> path \<Rightarrow> start_error + path \<times> string" where
  "watcher_start A p =
     (case watch_target p of
        Inl e \<Rightarrow> Err (Bad_Target e)
      | Inr (dir, name) \<Rightarrow>
          (case debouncer_new A of
             Inl e \<Rightarrow> Err (Create_Watcher_Failed e)
           | Inr _ \<Rightarrow>
               (case watch A dir of
                  Inl e \<Rightarrow> Err (Watch_Failed dir e)
                | Inr _ \<Rightarrow> Ok (dir, name))))"

subsection \<open>The loop\<close>

text \<open>\<open>EventBatch\<close>: the paths of a batch's events, or the watcher's errors.\<close>

type_synonym event_batch = "string list + path list"

datatype watch_outcome =
    Watch_Errors "string list"
  | Not_Relevant
  | Reloaded
  | Up_To_Date
  | Reload_Failed mmdb_error

definition batch_relevant :: "string \<Rightarrow> path list \<Rightarrow> bool" where
  "batch_relevant name events \<longleftrightarrow> (\<exists>e\<in>set events. path_file_name e = Some name)"

definition watch_step ::
  "'rd geoip_api \<Rightarrow> path \<Rightarrow> string \<Rightarrow> os_view \<times> os_view \<Rightarrow> event_batch \<Rightarrow> 'rd mmdb
    \<Rightarrow> watch_outcome \<times> 'rd mmdb \<times> metric_event list" where
  "watch_step G p name vws batch st =
     (case batch of
        Inl errors \<Rightarrow> (Watch_Errors errors, st, [])
      | Inr events \<Rightarrow>
          (if \<not> batch_relevant name events then (Not_Relevant, st, [])
           else case reload_if_changed G (fst vws) (snd vws) p st of
               (Inr True, st', evs) \<Rightarrow> (Reloaded, st', evs)
             | (Inr False, st', evs) \<Rightarrow> (Up_To_Date, st', evs)
             | (Inl e, st', evs) \<Rightarrow> (Reload_Failed e, st', evs)))"

text \<open>\<open>while let Some(batch) = rx.recv().await\<close>: all batches until the channel is closed.\<close>

fun watch_loop ::
  "'rd geoip_api \<Rightarrow> path \<Rightarrow> string \<Rightarrow> ((os_view \<times> os_view) \<times> event_batch) list \<Rightarrow> 'rd mmdb
    \<Rightarrow> watch_outcome list \<times> 'rd mmdb \<times> metric_event list" where
  "watch_loop G p name [] st = ([], st, [])"
| "watch_loop G p name ((vws, batch) # rest) st =
     (case watch_step G p name vws batch st of
        (out, st', evs) \<Rightarrow>
          (case watch_loop G p name rest st' of
             (outs, st'', evs') \<Rightarrow> (out # outs, st'', evs @ evs')))"

subsection \<open>Facts\<close>

lemma watch_target_Ok_iff:
  "watch_target p = Ok (dir, name) \<longleftrightarrow> p = dir @ [name] \<and> name \<noteq> ''..''"
  by (auto simp: watch_target_def path_parent_def path_file_name_def snoc_eq_iff_butlast)

lemma watcher_start_Ok_iff:
  "watcher_start A p = Ok (dir, name) \<longleftrightarrow>
     p = dir @ [name] \<and> name \<noteq> ''..'' \<and> debouncer_new A = Ok () \<and> watch A dir = Ok ()"
  unfolding conj_assoc [symmetric] watch_target_Ok_iff [symmetric]
  by (auto simp: watcher_start_def split: sum.splits)

lemma watch_step_store:
  "snd (watch_step G p name vws batch st) =
     (case batch of
        Inl _ \<Rightarrow> (st, [])
      | Inr events \<Rightarrow>
          if batch_relevant name events then snd (reload_if_changed G (fst vws) (snd vws) p st) else (st, []))"
  by (auto simp: watch_step_def split: sum.splits prod.splits bool.splits)

text \<open>The views of the batches that concern the database file.\<close>

definition relevant_views ::
  "string \<Rightarrow> ((os_view \<times> os_view) \<times> event_batch) list \<Rightarrow> (os_view \<times> os_view) list" where
  "relevant_views name bs =
     map fst (filter (\<lambda>(_, b). case b of Inl _ \<Rightarrow> False | Inr evs \<Rightarrow> batch_relevant name evs) bs)"

lemma watch_loop_store:
  "fst (snd (watch_loop G p name bs st)) = snapshot_store.reloads G p (relevant_views name bs) st"
proof (induction bs arbitrary: st)
  case (Cons b bs)
  obtain vws batch where b: "b = (vws, batch)" by fastforce
  have "fst (snd (watch_loop G p name (b # bs) st)) =
      fst (snd (watch_loop G p name bs (fst (snd (watch_step G p name vws batch st)))))"
    by (simp add: b split: prod.splits)
  then show ?case
    by (auto simp: Cons.IH b relevant_views_def watch_step_store split: sum.splits)
qed (simp add: relevant_views_def)

lemma watch_step_loads:
  "watch_step G p name vws batch st = (out, st', evs) \<Longrightarrow>
    counter_total MMDB_FILE_LOADED evs = (if out = Reloaded then 1 else 0)"
  by (auto simp: watch_step_def reload_if_changed_def load_locked_def metric_defs
      split: sum.splits if_splits prod.splits bool.splits)

section \<open>Properties\<close>

text \<open>
  C23. Whatever batches the watcher receives and whatever happens to the file meanwhile, the
  store answers every lookup either as before or from one complete database that a relevant batch
  found in the file: never from a mixture, and never from an unreadable file.
\<close>

theorem watch_loop_one_version:
  "find_entry G (fst (snd (watch_loop G p name bs st))) = find_entry G st \<or>
   (\<exists>v\<in>set (relevant_views name bs). \<exists>content rd.
      os_read (snd v) p = Ok content \<and> g_from_bytes G content = Ok rd \<and>
      find_entry G (fst (snd (watch_loop G p name bs st))) = query_db G rd)"
proof -
  have "g_from_bytes G content = Ok rd" if "parse_db G content = Some rd" for content rd
    using that by (cases "g_from_bytes G content") (auto simp: parse_db_def)
  then show ?thesis
    using snapshot_store.reloads_one_version [of G p "relevant_views name bs" st]
    unfolding watch_loop_store snapshot_store.shown_def by blast
qed

text \<open>
  The load counter counts reloads: over a run of the loop it grows by the number of batches
  that replaced the snapshot, and a batch without an event for the database file, or of watcher
  errors, changes neither the snapshot nor any metric.
\<close>

theorem watch_loop_counts_reloads:
  "watch_loop G p name bs st = (outs, st', evs) \<Longrightarrow>
    counter_total MMDB_FILE_LOADED evs = length (filter (\<lambda>out. out = Reloaded) outs) \<and>
    length outs = length bs \<and>
    (relevant_views name bs = [] \<longrightarrow> st' = st \<and> evs = [])"
proof (induction bs arbitrary: st outs st' evs)
  case (Cons b bs)
  obtain vws batch where b: "b = (vws, batch)" by fastforce
  obtain out st1 evs1 where s: "watch_step G p name vws batch st = (out, st1, evs1)"
    by (metis prod_cases3)
  obtain outs2 st2 evs2 where l: "watch_loop G p name bs st1 = (outs2, st2, evs2)"
    by (metis prod_cases3)
  from Cons.prems have eqs: "outs = out # outs2" "st' = st2" "evs = evs1 @ evs2"
    by (auto simp: b s l)
  have "relevant_views name (b # bs) = [] \<Longrightarrow> st1 = st \<and> evs1 = [] \<and> relevant_views name bs = []"
    using s by (auto simp: relevant_views_def b watch_step_def split: sum.splits if_splits)
  with Cons.IH [OF l] watch_step_loads [OF s] show ?case by (auto simp: eqs)
qed (simp add: relevant_views_def)

theorem watch_loop_counts_reloads_witness:
  "\<exists>st evs. watch_loop ref_geoip [''firehol.mmdb''] ''firehol.mmdb''
      [((view_of (tiny_fs 5), view_of (tiny_fs 5)), Inr [[''other.txt'']]),
       ((view_of (tiny_fs 5), view_of (tiny_fs 5)), Inr [[''firehol.mmdb'']])] mmdb_new
     = ([Not_Relevant, Reloaded], st, evs) \<and> counter_total MMDB_FILE_LOADED evs = 1"
proof -
  let ?v = "(view_of (tiny_fs 5), view_of (tiny_fs 5))"
  have "watch_step ref_geoip [''firehol.mmdb''] ''firehol.mmdb'' ?v (Inr [[''other.txt'']]) mmdb_new
      = (Not_Relevant, mmdb_new, [])"
    by (simp add: watch_step_def batch_relevant_def path_file_name_def)
  moreover have "\<exists>st evs. watch_step ref_geoip [''firehol.mmdb''] ''firehol.mmdb'' ?v
      (Inr [[''firehol.mmdb'']]) mmdb_new = (Reloaded, st, evs)"
    by (simp add: watch_step_def batch_relevant_def path_file_name_def tiny_reload)
  ultimately obtain st evs where
    r: "watch_loop ref_geoip [''firehol.mmdb''] ''firehol.mmdb''
      [(?v, Inr [[''other.txt'']]), (?v, Inr [[''firehol.mmdb'']])] mmdb_new
     = ([Not_Relevant, Reloaded], st, evs)"
    by auto
  from watch_loop_counts_reloads [OF r] r show ?thesis by auto
qed

end
