(* ===== verification/Spoa.thy ===== *)
theory Spoa
  imports Mmdb
begin

text \<open>
  \<open>src/spoa.rs\<close>: the SPOE request handler. The filter's policy (\<open>find_match\<close>), the lookup
  with its effect on the metrics (\<open>should_drop\<close>, \<open>record_block\<close>) and the handler with all
  its early returns. The SPOE library's request is a parameter.
\<close>

subsection \<open>The SPOE library\<close>

text \<open>The typed values the handler names; every other constructor is \<open>OtherData\<close>.\<close>

datatype 'o typed_data =
    TD_IPv4 ipv4
  | TD_IPv6 ipv6
  | TD_String string
  | TD_Boolean bool
  | OtherData 'o

datatype scope = Session | OtherScope nat

record ('req, 'msg, 'o) spoe_api =
  get_message :: "'req \<Rightarrow> string \<Rightarrow> 'msg option"
  msg_get :: "'msg \<Rightarrow> string \<Rightarrow> 'o typed_data option"
  set_var :: "'req \<Rightarrow> scope \<Rightarrow> string \<Rightarrow> 'o typed_data \<Rightarrow> 'req"

definition MESSAGE_NAME :: string where "MESSAGE_NAME = ''check-client-ip''"
definition IP_ARGUMENT :: string where "IP_ARGUMENT = ''ip''"
definition RESULT_VARIABLE :: string where "RESULT_VARIABLE = ''ip_bad''"
definition UNKNOWN :: string where "UNKNOWN = ''unknown''"

subsection \<open>The policy\<close>

record ip_filter =
  drop_categories :: "string set"
  drop_file_names :: "string set"

text \<open>\<open>IpFilter::new\<close>; the database is passed to the operations instead of kept.\<close>

definition new_filter :: "string set \<Rightarrow> string set \<Rightarrow> ip_filter" where
  "new_filter categories file_names =
     \<lparr>drop_categories = categories, drop_file_names = file_names\<rparr>"

datatype reason = ByCategory | ByFileName

record hit =
  hit_index :: nat
  hit_reason :: reason

definition find_match :: "ip_filter \<Rightarrow> firehol_entry \<Rightarrow> hit option" where
  "find_match flt e =
     (case map_option (\<lambda>i. \<lparr>hit_index = i, hit_reason = ByCategory\<rparr>)
             (position (\<lambda>c. c \<in> drop_categories flt) (entry_category e)) of
        Some h \<Rightarrow> Some h
      | None \<Rightarrow>
          map_option (\<lambda>i. \<lparr>hit_index = i, hit_reason = ByFileName\<rparr>)
            (position (\<lambda>f. f \<in> drop_file_names flt) (entry_file_name e)))"

definition field :: "string list \<Rightarrow> nat \<Rightarrow> string" where
  "field values i = (case vec_get values i of Some v \<Rightarrow> v | None \<Rightarrow> UNKNOWN)"

text \<open>The warning's fields, and the metric update of a block.\<close>

datatype block_log =
    Blocked_By_Category ip_addr string string string string
  | Blocked_By_File_Name ip_addr string string string string

definition record_block ::
  "ip_addr \<Rightarrow> firehol_entry \<Rightarrow> hit \<Rightarrow> block_log \<times> metric_event list" where
  "record_block ip e h =
     (let file_name = field (entry_file_name e) (hit_index h);
          maintainer = field (entry_maintainer e) (hit_index h);
          category = field (entry_category e) (hit_index h);
          source_file_date = field (entry_source_file_date e) (hit_index h)
      in ((case hit_reason h of
             ByCategory \<Rightarrow> Blocked_By_Category ip file_name maintainer source_file_date category
           | ByFileName \<Rightarrow> Blocked_By_File_Name ip category maintainer source_file_date file_name),
          [Inc IP_BLOCKED_REQUESTS [file_name, maintainer, category]]))"

definition should_drop ::
  "'rd geoip_api \<Rightarrow> ip_filter \<Rightarrow> 'rd mmdb \<Rightarrow> ip_addr \<Rightarrow> bool \<times> metric_event list" where
  "should_drop G flt st ip =
     (case lookup G st ip (\<lambda>e.
             case find_match flt e of
               Some h \<Rightarrow> (True, snd (record_block ip e h))
             | None \<Rightarrow> (False, [])) of
        Some verdict \<Rightarrow> verdict
      | None \<Rightarrow> (False, []))"

subsection \<open>The handler\<close>

datatype 'o handle_outcome =
    Unknown_Message
  | Bad_Ip string
  | Bad_Argument "'o typed_data option"
  | Answered ip_addr bool

text \<open>The argument's address, or the early return it causes.\<close>

definition ip_argument ::
  "('req, 'msg, 'o) spoe_api \<Rightarrow> 'msg \<Rightarrow> 'o handle_outcome + ip_addr" where
  "ip_argument S msg =
     (case msg_get S msg IP_ARGUMENT of
        Some (TD_IPv4 a) \<Rightarrow> Inr (V4 a)
      | Some (TD_IPv6 a) \<Rightarrow> Inr (V6 a)
      | Some (TD_String raw) \<Rightarrow>
          (case parse_ip_addr raw of Some ip \<Rightarrow> Inr ip | None \<Rightarrow> Inl (Bad_Ip raw))
      | other \<Rightarrow> Inl (Bad_Argument other))"

definition handle ::
  "('req, 'msg, 'o) spoe_api \<Rightarrow> 'rd geoip_api \<Rightarrow> ip_filter \<Rightarrow> 'rd mmdb \<Rightarrow> 'req
    \<Rightarrow> 'o handle_outcome \<times> 'req \<times> metric_event list" where
  "handle S G flt st req =
     (case get_message S req MESSAGE_NAME of
        None \<Rightarrow> (Unknown_Message, req, [])
      | Some msg \<Rightarrow>
          (case ip_argument S msg of
             Inl out \<Rightarrow> (out, req, [])
           | Inr ip \<Rightarrow>
               (case should_drop G flt st ip of
                  (dropped, evs) \<Rightarrow>
                    (Answered ip dropped,
                     set_var S req Session RESULT_VARIABLE (TD_Boolean dropped),
                     evs @ (if \<not> dropped then [Inc IP_ALLOWED_REQUESTS []] else [])))))"

subsection \<open>Facts\<close>

lemma find_match_None_iff:
  "find_match flt e = None \<longleftrightarrow>
     (\<forall>c\<in>set (entry_category e). c \<notin> drop_categories flt) \<and>
     (\<forall>f\<in>set (entry_file_name e). f \<notin> drop_file_names flt)"
  by (auto simp: find_match_def split: option.splits dest: position_Some_ex)

lemma find_match_Some_iff:
  "find_match flt e = Some h \<longleftrightarrow>
     position (\<lambda>c. c \<in> drop_categories flt) (entry_category e) = Some (hit_index h) \<and>
       hit_reason h = ByCategory \<or>
     (\<forall>c\<in>set (entry_category e). c \<notin> drop_categories flt) \<and>
       position (\<lambda>f. f \<in> drop_file_names flt) (entry_file_name e) = Some (hit_index h) \<and>
       hit_reason h = ByFileName"
  by (cases h) (auto simp: find_match_def split: option.splits dest: position_Some_ex)

lemma should_drop_find_entry:
  "should_drop G flt st ip =
     (case find_entry G st ip of
        None \<Rightarrow> (False, [])
      | Some e \<Rightarrow>
          (case find_match flt e of
             None \<Rightarrow> (False, [])
           | Some h \<Rightarrow> (True, snd (record_block ip e h))))"
  by (subst should_drop_def, subst lookup_map) (simp add: find_entry_def split: option.splits)

lemma should_drop_iff:
  "fst (should_drop G flt st ip) \<longleftrightarrow> (\<exists>e. find_entry G st ip = Some e \<and> find_match flt e \<noteq> None)"
  by (auto simp: should_drop_find_entry split: option.splits)

lemma should_drop_events:
  "snd (should_drop G flt st ip) = [] \<and> \<not> fst (should_drop G flt st ip) \<or>
   fst (should_drop G flt st ip) \<and>
     (\<exists>f m c. snd (should_drop G flt st ip) = [Inc IP_BLOCKED_REQUESTS [f, m, c]])"
  by (auto simp: should_drop_find_entry record_block_def Let_def split: option.splits)

text \<open>The address a request is about, or the early return it causes.\<close>

definition request_ip ::
  "('req, 'msg, 'o) spoe_api \<Rightarrow> 'req \<Rightarrow> 'o handle_outcome + ip_addr" where
  "request_ip S req =
     (case get_message S req MESSAGE_NAME of None \<Rightarrow> Inl Unknown_Message | Some msg \<Rightarrow> ip_argument S msg)"

lemma handle_request_ip:
  "handle S G flt st req =
     (case request_ip S req of
        Inl out \<Rightarrow> (out, req, [])
      | Inr ip \<Rightarrow>
          (case should_drop G flt st ip of
             (dropped, evs) \<Rightarrow>
               (Answered ip dropped, set_var S req Session RESULT_VARIABLE (TD_Boolean dropped),
                evs @ (if \<not> dropped then [Inc IP_ALLOWED_REQUESTS []] else []))))"
  by (simp add: handle_def request_ip_def split: option.splits)

text \<open>The handler's answer, from the verdict on the request's address.\<close>

lemma handle_verdict:
  assumes "\<And>ip. fst (should_drop G flt st ip) \<longleftrightarrow> V ip"
  shows "\<exists>evs. handle S G flt st req =
    (case request_ip S req of
       Inl out \<Rightarrow> (out, req, [])
     | Inr ip \<Rightarrow>
         (let drop = V ip in (Answered ip drop, set_var S req Session ''ip_bad'' (TD_Boolean drop), evs)))"
proof (cases "request_ip S req")
  case (Inr ip)
  with assms [of ip] show ?thesis
    by (cases "should_drop G flt st ip") (simp add: handle_request_ip RESULT_VARIABLE_def)
qed (simp add: handle_request_ip)

lemma request_ip_not_answered: "request_ip S req = Inl out \<Longrightarrow> out \<noteq> Answered ip d"
  by (auto simp: request_ip_def ip_argument_def split: option.splits typed_data.splits)

lemma no_labels:
  "metric_labels IP_ALLOWED_REQUESTS = []" "length (metric_labels IP_BLOCKED_REQUESTS) = 3"
  by (simp_all add: metric_defs)

subsection \<open>A reference request\<close>

text \<open>Messages with their arguments, and the variables set so far.\<close>

record ref_request =
  req_messages :: "(string \<times> (string \<times> nat typed_data) list) list"
  req_vars :: "(scope \<times> string \<times> nat typed_data) list"

definition ref_spoe :: "(ref_request, (string \<times> nat typed_data) list, nat) spoe_api" where
  "ref_spoe =
     \<lparr>get_message = (\<lambda>r. map_of (req_messages r)),
      msg_get = map_of,
      set_var = (\<lambda>r sc name v. r\<lparr>req_vars := req_vars r @ [(sc, name, v)]\<rparr>)\<rparr>"

text \<open>The request HAProxy sends for a client address.\<close>

definition check_request :: "string \<Rightarrow> ref_request" where
  "check_request raw =
     \<lparr>req_messages = [(''check-client-ip'', [(''ip'', TD_String raw)])], req_vars = []\<rparr>"

lemma request_ip_check:
  "request_ip ref_spoe (check_request raw) =
     (case parse_ip_addr raw of Some ip \<Rightarrow> Inr ip | None \<Rightarrow> Inl (Bad_Ip raw))"
  by (simp add: request_ip_def ip_argument_def ref_spoe_def check_request_def MESSAGE_NAME_def IP_ARGUMENT_def)

lemma set_var_check:
  "req_vars (set_var ref_spoe (check_request raw) sc name v) = [(sc, name, v)]"
  by (simp add: ref_spoe_def check_request_def)

section \<open>Properties\<close>

text \<open>
  C18. Which list a block is attributed to: a dropped category anywhere in the record takes
  precedence over a dropped file name, and within its kind the first list wins; nothing matches
  exactly when no list of the record has a dropped category or file name.
\<close>

theorem find_match_precedence:
  "case find_match flt e of
     None \<Rightarrow>
       set (entry_category e) \<inter> drop_categories flt = {} \<and>
       set (entry_file_name e) \<inter> drop_file_names flt = {}
   | Some h \<Rightarrow>
       (case hit_reason h of
          ByCategory \<Rightarrow>
            hit_index h < length (entry_category e) \<and>
            entry_category e ! hit_index h \<in> drop_categories flt \<and>
            set (take (hit_index h) (entry_category e)) \<inter> drop_categories flt = {}
        | ByFileName \<Rightarrow>
            set (entry_category e) \<inter> drop_categories flt = {} \<and>
            hit_index h < length (entry_file_name e) \<and>
            entry_file_name e ! hit_index h \<in> drop_file_names flt \<and>
            set (take (hit_index h) (entry_file_name e)) \<inter> drop_file_names flt = {})"
proof (cases "find_match flt e")
  case None
  then have "set (entry_category e) \<inter> drop_categories flt = {} \<and>
      set (entry_file_name e) \<inter> drop_file_names flt = {}"
    by (auto simp: find_match_None_iff)
  with None show ?thesis by simp
next
  case (Some h)
  have first: "set (take i xs) \<inter> A = {}" if "position (\<lambda>x. x \<in> A) xs = Some i"
    for i and xs :: "string list" and A
    using position_SomeD [OF that] by (auto simp: in_set_conv_nth)
  from Some consider
      (category) "position (\<lambda>c. c \<in> drop_categories flt) (entry_category e) = Some (hit_index h)"
        "hit_reason h = ByCategory"
    | (file_name) "set (entry_category e) \<inter> drop_categories flt = {}"
        "position (\<lambda>f. f \<in> drop_file_names flt) (entry_file_name e) = Some (hit_index h)"
        "hit_reason h = ByFileName"
    unfolding find_match_Some_iff by blast
  then show ?thesis
  proof cases
    case category
    from position_SomeD [OF category(1)] first [OF category(1)] category(2) Some show ?thesis by simp
  next
    case file_name
    from position_SomeD [OF file_name(2)] first [OF file_name(2)] file_name(1,3) Some show ?thesis by simp
  qed
qed

text \<open>
  C19. Every handled request is accounted for exactly once: an answered request increments
  either the allowed or the blocked counter by one, according to its answer, and sets the session
  variable \<open>ip_bad\<close> to that answer; a request that is not answered changes neither the request
  nor a metric. No update passes a wrong number of labels.
\<close>

theorem handle_accounts:
  "case handle S G flt st req of
     (Answered ip dropped, req', evs) \<Rightarrow>
       dropped = fst (should_drop G flt st ip) \<and>
       req' = set_var S req Session ''ip_bad'' (TD_Boolean dropped) \<and>
       counter_total IP_BLOCKED_REQUESTS evs = (if dropped then 1 else 0) \<and>
       counter_total IP_ALLOWED_REQUESTS evs = (if dropped then 0 else 1) \<and>
       list_all event_ok evs
   | (_, req', evs) \<Rightarrow> req' = req \<and> evs = []"
proof (cases "request_ip S req")
  case (Inl out)
  then show ?thesis
    using request_ip_not_answered [OF Inl] by (simp add: handle_request_ip split: handle_outcome.splits)
next
  case (Inr ip)
  obtain dropped evs where d: "should_drop G flt st ip = (dropped, evs)" by fastforce
  with should_drop_events [of G flt st ip] Inr show ?thesis
    by (cases dropped) (auto simp: handle_request_ip RESULT_VARIABLE_def no_labels)
qed

text \<open>
  Which requests are answered: those with a \<open>check-client-ip\<close> message whose \<open>ip\<close>
  argument is an IPv4 or IPv6 value or a string that parses as an address; the answer is about
  that address.
\<close>

theorem handle_answers_iff:
  "(\<exists>dropped. fst (handle S G flt st req) = Answered ip dropped) \<longleftrightarrow>
     (\<exists>msg v. get_message S req ''check-client-ip'' = Some msg \<and> msg_get S msg ''ip'' = Some v \<and>
        (case v of
           TD_IPv4 a \<Rightarrow> ip = V4 a
         | TD_IPv6 a \<Rightarrow> ip = V6 a
         | TD_String raw \<Rightarrow> parse_ip_addr raw = Some ip
         | _ \<Rightarrow> False))"
  by (auto simp: handle_def ip_argument_def MESSAGE_NAME_def IP_ARGUMENT_def
      split: option.splits sum.splits prod.splits typed_data.splits)

text \<open>
  With neither a dropped category nor a dropped file name configured, or with no database
  loaded, every address is allowed and no block is counted.
\<close>

theorem should_drop_nothing:
  assumes "drop_categories flt = {} \<and> drop_file_names flt = {} \<or> snapshot st = None"
  shows "should_drop G flt st ip = (False, [])"
  using assms
proof
  assume "drop_categories flt = {} \<and> drop_file_names flt = {}"
  then have "find_match flt e = None" for e by (simp add: find_match_None_iff)
  then show ?thesis by (simp add: should_drop_find_entry split: option.splits)
qed (simp add: should_drop_find_entry find_entry_None)

theorem should_drop_nothing_witness:
  "should_drop ref_geoip \<lparr>drop_categories = {''abuse''}, drop_file_names = {}\<rparr> mmdb_new (V4 1) = (False, [])"
  by (rule should_drop_nothing) (simp add: mmdb_new_def)

end
