(* ===== verification/Ipset.thy ===== *)
theory Ipset
  imports Reference
begin

text \<open>
  \<open>src/firehol/ipset.rs\<close>: the parser of FireHOL list files. The data model, the header
  keys, the line loop and its two fallible conversions, then the abstract meaning of a file
  (each network with the header values in force at its line) and the lemmas that relate the
  loop to it.
\<close>

subsection \<open>Data\<close>

record metadata =
  source_file_date_rfc3339 :: string
  list_source_url :: string
  maintainer_url :: string
  maintainer :: string
  category :: string

definition default_metadata :: metadata where
  "default_metadata = \<lparr>source_file_date_rfc3339 = [], list_source_url = [], maintainer_url = [],
     maintainer = [], category = []\<rparr>"

record 'net net_section =
  section_metadata :: metadata
  networks :: "'net list"

record 'net ipset =
  file_name :: string
  sections :: "'net net_section list"

definition network_count :: "'net ipset \<Rightarrow> nat" where
  "network_count ips = sum_list (map (\<lambda>s. length (networks s)) (sections ips))"

subsection \<open>Header keys\<close>

datatype header_key = Category | MaintainerUrl | Maintainer | ListSourceUrl | SourceFileDate

definition header_key_parse :: "string \<Rightarrow> header_key option" where
  "header_key_parse key =
     (if key = ''Category'' then Some Category
      else if key = ''Maintainer URL'' then Some MaintainerUrl
      else if key = ''Maintainer'' then Some Maintainer
      else if key = ''List source URL'' then Some ListSourceUrl
      else if key = ''Source File Date'' then Some SourceFileDate
      else None)"

fun header_key_fmt :: "header_key \<Rightarrow> string" where
  "header_key_fmt Category = ''Category''"
| "header_key_fmt MaintainerUrl = ''Maintainer URL''"
| "header_key_fmt Maintainer = ''Maintainer''"
| "header_key_fmt ListSourceUrl = ''List source URL''"
| "header_key_fmt SourceFileDate = ''Source File Date''"

fun slot :: "header_key \<Rightarrow> metadata \<Rightarrow> string" where
  "slot Category m = category m"
| "slot MaintainerUrl m = maintainer_url m"
| "slot Maintainer m = maintainer m"
| "slot ListSourceUrl m = list_source_url m"
| "slot SourceFileDate m = source_file_date_rfc3339 m"

fun set_slot :: "header_key \<Rightarrow> string \<Rightarrow> metadata \<Rightarrow> metadata" where
  "set_slot Category v m = m\<lparr>category := v\<rparr>"
| "set_slot MaintainerUrl v m = m\<lparr>maintainer_url := v\<rparr>"
| "set_slot Maintainer v m = m\<lparr>maintainer := v\<rparr>"
| "set_slot ListSourceUrl v m = m\<lparr>list_source_url := v\<rparr>"
| "set_slot SourceFileDate v m = m\<lparr>source_file_date_rfc3339 := v\<rparr>"

subsection \<open>Fallible conversions\<close>

definition date_format :: string where
  "date_format = ''%a %b %e %H:%M:%S UTC %Y''"

definition parse_source_file_date :: "'dt chrono_api \<Rightarrow> string \<Rightarrow> string option" where
  "parse_source_file_date C value = map_option (utc_rfc3339 C) (naive_parse C value date_format)"

definition header_value :: "'dt chrono_api \<Rightarrow> header_key \<Rightarrow> string \<Rightarrow> string option" where
  "header_value C key raw =
     (case key of SourceFileDate \<Rightarrow> parse_source_file_date C raw | _ \<Rightarrow> Some raw)"

definition parse_network :: "'net ipnet_api \<Rightarrow> string \<Rightarrow> 'net option" where
  "parse_network N entry =
     (if contains_char CHR ''/'' entry then net_from_str N entry
      else map_option (net_of_addr N) (parse_ipv4 entry))"

subsection \<open>The line loop\<close>

text \<open>
  The two error contexts, \<open>file:line: invalid key\<close> and \<open>file:line: invalid entry\<close>,
  with the text that did not parse.
\<close>

datatype parse_error =
    Invalid_Header string nat header_key string
  | Invalid_Entry string nat string

record 'net parse_state =
  st_networks :: "'net list"
  st_sections :: "'net net_section list"
  st_metadata :: metadata

definition init_state :: "'net parse_state" where
  "init_state = \<lparr>st_networks = [], st_sections = [], st_metadata = default_metadata\<rparr>"

text \<open>The two \<open>let .. else continue\<close> of a comment line.\<close>

definition header_of :: "string \<Rightarrow> (header_key \<times> string) option" where
  "header_of comment =
     (case split_once CHR '':'' (trim comment) of
        None \<Rightarrow> None
      | Some (key, value) \<Rightarrow>
          (case header_key_parse (trim_end key) of
             None \<Rightarrow> None
           | Some k \<Rightarrow> Some (k, trim value)))"

text \<open>Store a header value; freeze the current section if it changes after networks were read.\<close>

definition apply_header :: "header_key \<Rightarrow> string \<Rightarrow> 'net parse_state \<Rightarrow> 'net parse_state" where
  "apply_header key value st =
     (if slot key (st_metadata st) \<noteq> value then
        (let st' = (if st_networks st \<noteq> [] then
                      st\<lparr>st_sections := st_sections st @
                           [\<lparr>section_metadata = st_metadata st, networks = st_networks st\<rparr>],
                         st_networks := []\<rparr>
                    else st)
         in st'\<lparr>st_metadata := set_slot key value (st_metadata st')\<rparr>)
      else st)"

definition parse_line ::
  "'net ipnet_api \<Rightarrow> 'dt chrono_api \<Rightarrow> string \<Rightarrow> nat \<Rightarrow> string \<Rightarrow> 'net parse_state
    \<Rightarrow> parse_error + 'net parse_state" where
  "parse_line N C file line_number raw_line st =
     (case strip_prefix_char CHR ''#'' raw_line of
        Some comment \<Rightarrow>
          (case header_of comment of
             None \<Rightarrow> Ok st
           | Some (key, raw) \<Rightarrow>
               (case header_value C key raw of
                  None \<Rightarrow> Err (Invalid_Header file line_number key raw)
                | Some value \<Rightarrow> Ok (apply_header key value st)))
      | None \<Rightarrow>
          (let entry = trim raw_line
           in if entry = [] then Ok st
              else case parse_network N entry of
                  None \<Rightarrow> Err (Invalid_Entry file line_number entry)
                | Some network \<Rightarrow> Ok (st\<lparr>st_networks := st_networks st @ [network]\<rparr>)))"

text \<open>\<open>content.lines().enumerate()\<close>, from line index \<open>i\<close>.\<close>

fun parse_lines ::
  "'net ipnet_api \<Rightarrow> 'dt chrono_api \<Rightarrow> string \<Rightarrow> nat \<Rightarrow> string list \<Rightarrow> 'net parse_state
    \<Rightarrow> parse_error + 'net parse_state" where
  "parse_lines N C file i [] st = Ok st"
| "parse_lines N C file i (l # ls) st =
     (case parse_line N C file (i + 1) l st of
        Err e \<Rightarrow> Err e
      | Ok st' \<Rightarrow> parse_lines N C file (i + 1) ls st')"

definition final_sections :: "'net parse_state \<Rightarrow> 'net net_section list" where
  "final_sections st =
     (if st_networks st \<noteq> [] then
        st_sections st @ [\<lparr>section_metadata = st_metadata st, networks = st_networks st\<rparr>]
      else st_sections st)"

definition parse ::
  "'net ipnet_api \<Rightarrow> 'dt chrono_api \<Rightarrow> string \<Rightarrow> string \<Rightarrow> parse_error + 'net ipset" where
  "parse N C file content =
     (case parse_lines N C file 0 (str_lines content) init_state of
        Err e \<Rightarrow> Err e
      | Ok st \<Rightarrow> Ok \<lparr>file_name = file, sections = final_sections st\<rparr>)"

subsection \<open>The meaning of a file\<close>

text \<open>What one line contributes, independently of the state of the loop.\<close>

datatype 'net line = Skip | Header header_key string | Network 'net

definition classify ::
  "'net ipnet_api \<Rightarrow> 'dt chrono_api \<Rightarrow> string \<Rightarrow> nat \<Rightarrow> string \<Rightarrow> parse_error + 'net line" where
  "classify N C file n l =
     (case strip_prefix_char CHR ''#'' l of
        Some comment \<Rightarrow>
          (case header_of comment of
             None \<Rightarrow> Ok Skip
           | Some (key, raw) \<Rightarrow>
               (case header_value C key raw of
                  None \<Rightarrow> Err (Invalid_Header file n key raw)
                | Some value \<Rightarrow> Ok (Header key value)))
      | None \<Rightarrow>
          (if trim l = [] then Ok Skip
           else case parse_network N (trim l) of
               None \<Rightarrow> Err (Invalid_Entry file n (trim l))
             | Some network \<Rightarrow> Ok (Network network)))"

text \<open>The networks of a list of lines, each with the header values in force at its line.\<close>

fun annotate :: "metadata \<Rightarrow> 'net line list \<Rightarrow> (metadata \<times> 'net) list" where
  "annotate m [] = []"
| "annotate m (Skip # ls) = annotate m ls"
| "annotate m (Header k v # ls) = annotate (set_slot k v m) ls"
| "annotate m (Network n # ls) = (m, n) # annotate m ls"

text \<open>The same view of a list of sections.\<close>

definition tagged :: "'net net_section list \<Rightarrow> (metadata \<times> 'net) list" where
  "tagged secs = concat (map (\<lambda>s. map (Pair (section_metadata s)) (networks s)) secs)"

text \<open>All lines, up to the first malformed one.\<close>

fun classify_all ::
  "'net ipnet_api \<Rightarrow> 'dt chrono_api \<Rightarrow> string \<Rightarrow> nat \<Rightarrow> string list \<Rightarrow> parse_error + 'net line list"
where
  "classify_all N C file i [] = Ok []"
| "classify_all N C file i (l # ls) =
     (case classify N C file (i + 1) l of
        Err e \<Rightarrow> Err e
      | Ok k \<Rightarrow> (case classify_all N C file (i + 1) ls of Err e \<Rightarrow> Err e | Ok ks \<Rightarrow> Ok (k # ks)))"

text \<open>The effect of one classified line on the loop's state.\<close>

fun advance :: "'net parse_state \<Rightarrow> 'net line \<Rightarrow> 'net parse_state" where
  "advance st Skip = st"
| "advance st (Header k v) = apply_header k v st"
| "advance st (Network n) = st\<lparr>st_networks := st_networks st @ [n]\<rparr>"

subsection \<open>Header keys and slots\<close>

lemma header_key_parse_iff: "header_key_parse s = Some k \<longleftrightarrow> s = header_key_fmt k"
  by (cases k) (auto simp: header_key_parse_def)

lemma slot_set_slot [simp]: "slot k (set_slot k v m) = v"
  by (cases k) auto

lemma slot_set_slot_other: "k \<noteq> k' \<Longrightarrow> slot k' (set_slot k v m) = slot k' m"
  by (cases k; cases k') auto

lemma set_slot_slot [simp]: "set_slot k (slot k m) m = m"
  by (cases k) auto

lemma slot_default [simp]: "slot k default_metadata = []"
  by (cases k) (auto simp: default_metadata_def)

lemma metadata_eqI: "(\<And>k. slot k m = slot k m') \<Longrightarrow> m = (m' :: metadata)"
  by (metis (full_types) metadata.equality old.unit.exhaust slot.simps)

subsection \<open>The loop processes classified lines one by one\<close>

lemma parse_line_classify:
  "parse_line N C file n l st =
     (case classify N C file n l of Err e \<Rightarrow> Err e | Ok k \<Rightarrow> Ok (advance st k))"
  by (auto simp: parse_line_def classify_def Let_def split: option.splits)

lemma parse_lines_classify:
  "parse_lines N C file i ls st =
     (case classify_all N C file i ls of Err e \<Rightarrow> Err e | Ok ks \<Rightarrow> Ok (foldl advance st ks))"
  by (induction ls arbitrary: i st) (auto simp: parse_line_classify split: sum.splits)

lemma parse_classify:
  "parse N C file content =
     (case classify_all N C file 0 (str_lines content) of
        Err e \<Rightarrow> Err e
      | Ok ks \<Rightarrow> Ok \<lparr>file_name = file, sections = final_sections (foldl advance init_state ks)\<rparr>)"
  by (simp add: parse_def parse_lines_classify split: sum.splits)

lemma classify_all_Cons_Ok:
  "classify_all N C file i (l # ls) = Ok ks \<longleftrightarrow>
     (\<exists>k ks'. ks = k # ks' \<and> classify N C file (i + 1) l = Ok k \<and> classify_all N C file (i + 1) ls = Ok ks')"
  by (auto split: sum.splits)

lemma classify_all_Cons_Err:
  "classify_all N C file i (l # ls) = Err e \<longleftrightarrow>
     classify N C file (i + 1) l = Err e \<or>
     is_ok (classify N C file (i + 1) l) \<and> classify_all N C file (i + 1) ls = Err e"
  by (auto split: sum.splits)

lemma classify_all_Ok_iff:
  "classify_all N C file i ls = Ok ks \<longleftrightarrow>
     length ks = length ls \<and> (\<forall>j<length ls. classify N C file (i + j + 1) (ls ! j) = Ok (ks ! j))"
proof (induction ls arbitrary: i ks)
  case (Cons l ls)
  show ?case
    unfolding classify_all_Cons_Ok Cons.IH
    by (cases ks) (auto simp: All_less_Suc2)
qed auto

lemma classify_all_Err_iff:
  "classify_all N C file i ls = Err e \<longleftrightarrow>
     (\<exists>j<length ls. classify N C file (i + j + 1) (ls ! j) = Err e \<and>
        (\<forall>j'<j. is_ok (classify N C file (i + j' + 1) (ls ! j'))))"
proof (induction ls arbitrary: i)
  case (Cons l ls)
  show ?case
    unfolding classify_all_Cons_Err Cons.IH
    by (auto simp: Ex_less_Suc2 All_less_Suc2)
qed simp

subsection \<open>Sections carry the meaning of the file\<close>

definition st_view :: "'net parse_state \<Rightarrow> (metadata \<times> 'net) list" where
  "st_view st = tagged (st_sections st) @ map (Pair (st_metadata st)) (st_networks st)"

lemma tagged_append [simp]: "tagged (xs @ ys) = tagged xs @ tagged ys"
  by (simp add: tagged_def)

lemma tagged_simps [simp]:
  "tagged [] = []"
  "tagged (s # ss) = map (Pair (section_metadata s)) (networks s) @ tagged ss"
  by (simp_all add: tagged_def)

lemma apply_header_metadata [simp]:
  "st_metadata (apply_header k v st) = set_slot k v (st_metadata st)"
  by (auto simp: apply_header_def Let_def)

lemma apply_header_view [simp]: "st_view (apply_header k v st) = st_view st"
  by (auto simp: apply_header_def Let_def st_view_def)

lemma advance_annotate:
  "st_view (foldl advance st ks) = st_view st @ annotate (st_metadata st) ks"
proof (induction ks arbitrary: st)
  case (Cons k ks)
  show ?case by (cases k) (auto simp: Cons.IH, simp add: st_view_def)
qed simp

lemma tagged_final_sections: "tagged (final_sections st) = st_view st"
  by (simp add: final_sections_def st_view_def)

lemma st_view_init [simp]: "st_view init_state = []"
  by (simp add: st_view_def init_state_def)

lemma init_state_simps [simp]:
  "st_metadata init_state = default_metadata" "st_networks init_state = []"
  "st_sections init_state = []"
  by (simp_all add: init_state_def)

lemma network_count_tagged: "network_count ips = length (tagged (sections ips))"
  by (simp add: network_count_def tagged_def length_concat comp_def)

subsection \<open>No section is empty\<close>

definition sections_nonempty :: "'net net_section list \<Rightarrow> bool" where
  "sections_nonempty secs \<longleftrightarrow> (\<forall>s\<in>set secs. networks s \<noteq> [])"

lemma advance_nonempty:
  "sections_nonempty (st_sections st) \<Longrightarrow> sections_nonempty (st_sections (foldl advance st ks))"
proof (induction ks arbitrary: st)
  case (Cons k ks)
  from Cons.prems have "sections_nonempty (st_sections (advance st k))"
    by (cases k) (auto simp: apply_header_def Let_def sections_nonempty_def)
  then show ?case by (simp add: Cons.IH)
qed simp

lemma final_sections_nonempty:
  "sections_nonempty (st_sections st) \<Longrightarrow> sections_nonempty (final_sections st)"
  by (auto simp: final_sections_def sections_nonempty_def)

lemma sections_nonempty_count:
  "sections_nonempty secs \<Longrightarrow> tagged secs = [] \<longleftrightarrow> secs = []"
  by (cases secs) (auto simp: sections_nonempty_def)

subsection \<open>Files with a header block first\<close>

text \<open>Lines that leave the header alone, and lines that read no network.\<close>

definition no_header :: "'net line list \<Rightarrow> bool" where
  "no_header ks \<longleftrightarrow> (\<forall>k v. Header k v \<notin> set ks)"

definition no_network :: "'net line list \<Rightarrow> bool" where
  "no_network ks \<longleftrightarrow> (\<forall>n. Network n \<notin> set ks)"

fun line_networks :: "'net line list \<Rightarrow> 'net list" where
  "line_networks [] = []"
| "line_networks (Network n # ks) = n # line_networks ks"
| "line_networks (_ # ks) = line_networks ks"

fun line_metadata :: "metadata \<Rightarrow> 'net line list \<Rightarrow> metadata" where
  "line_metadata m [] = m"
| "line_metadata m (Header k v # ks) = line_metadata (set_slot k v m) ks"
| "line_metadata m (_ # ks) = line_metadata m ks"

lemma advance_no_header:
  "no_header ks \<Longrightarrow>
    foldl advance st ks = st\<lparr>st_networks := st_networks st @ line_networks ks\<rparr>"
proof (induction ks arbitrary: st)
  case (Cons k ks)
  then have "no_header ks" by (simp add: no_header_def)
  with Cons show ?case by (cases k) (auto simp: no_header_def)
qed simp

lemma apply_header_no_networks:
  "st_networks st = [] \<Longrightarrow> apply_header k v st = st\<lparr>st_metadata := set_slot k v (st_metadata st)\<rparr>"
  by (auto simp: apply_header_def Let_def)

lemma advance_no_network:
  "no_network ks \<Longrightarrow> st_networks st = [] \<Longrightarrow>
    foldl advance st ks = st\<lparr>st_metadata := line_metadata (st_metadata st) ks\<rparr>"
proof (induction ks arbitrary: st)
  case (Cons k ks)
  then have "no_network ks" by (simp add: no_network_def)
  with Cons show ?case by (cases k) (auto simp: no_network_def apply_header_no_networks)
qed simp

lemma header_first_sections:
  assumes "no_network hs" "no_header ns"
  shows "final_sections (foldl advance init_state (hs @ ns)) =
    (if line_networks ns = [] then []
     else [\<lparr>section_metadata = line_metadata default_metadata hs, networks = line_networks ns\<rparr>])"
  using assms by (simp add: advance_no_header advance_no_network final_sections_def)

subsection \<open>Lists of bare addresses\<close>

lemma classify_show_ipv4:
  "classify N C file n (show_ipv4 a) = Ok (Network (net_of_addr N a))"
proof -
  have "strip_prefix_char CHR ''#'' (show_ipv4 a) = None"
    using show_ipv4_free(1) [of a] by (cases "show_ipv4 a") auto
  then show ?thesis
    by (simp add: classify_def parse_network_def contains_char_def show_ipv4_free)
qed

lemma classify_all_show_ipv4:
  "classify_all N C file i (map show_ipv4 as) = Ok (map (\<lambda>a. Network (net_of_addr N a)) as)"
  by (induction as arbitrary: i) (simp_all add: classify_show_ipv4)

lemma no_header_networks [simp]: "no_header (map (\<lambda>a. Network (f a)) as)"
  by (auto simp: no_header_def)

lemma line_networks_map [simp]: "line_networks (map (\<lambda>a. Network (f a)) as) = map f as"
  by (induction as) auto

section \<open>Properties\<close>

text \<open>
  C4. A successful parse returns the file's name and sections that spell out exactly the
  meaning of the file: every network line in order, tagged with the header values in force at
  its line. No section is empty, and the network count is the number of network lines. A
  failing parse reports the error of the classified lines.
\<close>

theorem parse_meaning:
  "case parse N C file content of
     Err e \<Rightarrow> classify_all N C file 0 (str_lines content) = Err e
   | Ok ips \<Rightarrow>
       (\<exists>ks. classify_all N C file 0 (str_lines content) = Ok ks \<and>
          file_name ips = file \<and>
          tagged (sections ips) = annotate default_metadata ks \<and>
          sections_nonempty (sections ips) \<and>
          network_count ips = length (annotate default_metadata ks))"
proof (cases "classify_all N C file 0 (str_lines content)")
  case (Inr ks)
  let ?secs = "final_sections (foldl advance init_state ks)"
  have "tagged ?secs = annotate default_metadata ks"
    by (simp add: tagged_final_sections advance_annotate)
  moreover have "sections_nonempty ?secs"
    by (intro final_sections_nonempty advance_nonempty) (simp add: sections_nonempty_def)
  ultimately show ?thesis
    by (simp add: Inr parse_classify network_count_tagged)
qed (simp add: parse_classify)

text \<open>
  C28. Parsing fails exactly when some line is malformed, and the error names the first one:
  line \<open>j\<close> (counted from 1 in the report) is malformed and every earlier line is fine.
\<close>

theorem parse_first_error:
  "parse N C file content = Err e \<longleftrightarrow>
     (\<exists>j<length (str_lines content).
        classify N C file (j + 1) (str_lines content ! j) = Err e \<and>
        (\<forall>j'<j. is_ok (classify N C file (j' + 1) (str_lines content ! j'))))"
proof -
  have "parse N C file content = Err e \<longleftrightarrow> classify_all N C file 0 (str_lines content) = Err e"
    by (simp add: parse_classify split: sum.splits)
  then show ?thesis unfolding classify_all_Err_iff by simp
qed

theorem parse_first_error_witness:
  "parse ref_ipnet ref_chrono ''bad.ipset'' (''1.2.3.4'' @ [newline] @ ''1.2.3'')
    = Err (Invalid_Entry ''bad.ipset'' 2 ''1.2.3'')"
proof -
  let ?c = "''1.2.3.4'' @ [newline] @ ''1.2.3''"
  have lines: "str_lines ?c = [''1.2.3.4'', ''1.2.3'']" by code_simp
  have "classify ref_ipnet ref_chrono ''bad.ipset'' 2 ''1.2.3'' = Err (Invalid_Entry ''bad.ipset'' 2 ''1.2.3'')"
    by code_simp
  moreover have "is_ok (classify ref_ipnet ref_chrono ''bad.ipset'' 1 ''1.2.3.4'')" by code_simp
  ultimately show ?thesis
    unfolding parse_first_error lines by (intro exI [of _ 1]) (simp add: numeral_2_eq_2)
qed

text \<open>
  A file whose header lines all precede its networks has one section, with the header's
  final values and all the networks in order (and none when it lists no network).
\<close>

theorem parse_header_first:
  assumes "classify_all N C file 0 (str_lines content) = Ok (hs @ ns)"
    and "no_network hs" and "no_header ns"
  shows "parse N C file content =
    Ok \<lparr>file_name = file, sections =
      (if line_networks ns = [] then []
       else [\<lparr>section_metadata = line_metadata default_metadata hs, networks = line_networks ns\<rparr>])\<rparr>"
  using header_first_sections [OF assms(2,3)] by (simp add: parse_classify assms(1))

theorem parse_header_first_witness:
  "parse ref_ipnet ref_chrono ''a.ipset'' (''# Category : abuse'' @ [newline] @ ''1.2.3.4'' @ [newline]) =
    Ok \<lparr>file_name = ''a.ipset'', sections =
      [\<lparr>section_metadata = default_metadata\<lparr>category := ''abuse''\<rparr>,
        networks = [\<lparr>cidr_addr = 0x01020304, cidr_len = 32\<rparr>]\<rparr>]\<rparr>"
proof -
  let ?c = "''# Category : abuse'' @ [newline] @ ''1.2.3.4'' @ [newline]"
  have "classify_all ref_ipnet ref_chrono ''a.ipset'' 0 (str_lines ?c) =
      Ok ([Header Category ''abuse''] @ [Network \<lparr>cidr_addr = 0x01020304, cidr_len = 32\<rparr>])"
    by code_simp
  from parse_header_first [OF this] show ?thesis
    by (simp add: no_header_def no_network_def)
qed

text \<open>
  Round trip: printing addresses one per line and parsing the text gives back the /32
  networks of these addresses, in order, in one section without header values.
\<close>

theorem parse_printed_addresses:
  "parse N C file (concat (map (\<lambda>a. show_ipv4 a @ [newline]) as)) =
    Ok \<lparr>file_name = file, sections =
      (if as = [] then []
       else [\<lparr>section_metadata = default_metadata, networks = map (net_of_addr N) as\<rparr>])\<rparr>"
proof -
  have "str_lines (concat (map (\<lambda>l. l @ [newline]) (map show_ipv4 as))) = map show_ipv4 as"
    by (rule str_lines_concat) (auto simp: show_ipv4_free)
  then have "str_lines (concat (map (\<lambda>a. show_ipv4 a @ [newline]) as)) = map show_ipv4 as"
    by (simp add: comp_def)
  then show ?thesis
    using header_first_sections [of "[]" "map (\<lambda>a. Network (net_of_addr N a)) as"]
    by (simp add: parse_classify classify_all_show_ipv4 no_network_def)
qed

end
