(* ===== verification/Builder.thy ===== *)
theory Builder
  imports Ipset Fs
begin

text \<open>
  \<open>src/firehol/builder.rs\<close>: the record stored for a list, the three nested insertion
  loops, the temporary file and the replacement of the database. The insertion loops are
  related to the rows a database should hold for an address; the file operations to an
  atomic replacement.
\<close>

subsection \<open>Records\<close>

definition DATABASE_TYPE :: string where "DATABASE_TYPE = ''Firehol-DB''"
definition FILE_NAME :: string where "FILE_NAME = ''file_name''"
definition SOURCE_FILE_DATE :: string where "SOURCE_FILE_DATE = ''source_file_date_rfc3339''"
definition LIST_SOURCE_URL :: string where "LIST_SOURCE_URL = ''list_source_url''"
definition MAINTAINER_URL :: string where "MAINTAINER_URL = ''maintainer_url''"
definition MAINTAINER :: string where "MAINTAINER = ''maintainer''"
definition CATEGORY :: string where "CATEGORY = ''category''"

lemmas key_defs = FILE_NAME_def SOURCE_FILE_DATE_def LIST_SOURCE_URL_def MAINTAINER_URL_def
  MAINTAINER_def CATEGORY_def

definition mmdb_record :: "string \<Rightarrow> metadata \<Rightarrow> mval" where
  "mmdb_record name m =
     (let one = (\<lambda>value. VArray [VString value])
      in VMap [(FILE_NAME, one name), (SOURCE_FILE_DATE, one (source_file_date_rfc3339 m)),
           (LIST_SOURCE_URL, one (list_source_url m)), (MAINTAINER_URL, one (maintainer_url m)),
           (MAINTAINER, one (maintainer m)), (CATEGORY, one (category m))])"

subsection \<open>Insertion\<close>

datatype 'net build_error =
    Insert_Failed 'net string string
  | Serialise_Failed string
  | Create_Failed path io_error
  | Write_Failed path io_error
  | Sync_Failed path io_error
  | Rename_Failed path path io_error

definition merge_record :: "('w, 'net) writer_api \<Rightarrow> mval \<Rightarrow> mval option \<Rightarrow> mval option" where
  "merge_record W value existing =
     Some (case existing of Some old \<Rightarrow> w_merge_deep W old value | None \<Rightarrow> value)"

fun insert_networks ::
  "('w, 'net) writer_api \<Rightarrow> string \<Rightarrow> mval \<Rightarrow> 'w \<Rightarrow> 'net list \<Rightarrow> 'net build_error + 'w" where
  "insert_networks W name value w [] = Ok w"
| "insert_networks W name value w (network # ns) =
     (case w_insert_with W w network (merge_record W value) of
        Inl e \<Rightarrow> Err (Insert_Failed network name e)
      | Inr w' \<Rightarrow> insert_networks W name value w' ns)"

fun insert_sections ::
  "('w, 'net) writer_api \<Rightarrow> string \<Rightarrow> 'w \<Rightarrow> 'net net_section list \<Rightarrow> 'net build_error + 'w" where
  "insert_sections W name w [] = Ok w"
| "insert_sections W name w (s # ss) =
     (case insert_networks W name (mmdb_record name (section_metadata s)) w (networks s) of
        Inl e \<Rightarrow> Err e
      | Inr w' \<Rightarrow> insert_sections W name w' ss)"

fun insert_ipsets ::
  "('w, 'net) writer_api \<Rightarrow> 'w \<Rightarrow> 'net ipset list \<Rightarrow> 'net build_error + 'w" where
  "insert_ipsets W w [] = Ok w"
| "insert_ipsets W w (i # is) =
     (case insert_sections W (file_name i) w (sections i) of
        Inl e \<Rightarrow> Err e
      | Inr w' \<Rightarrow> insert_ipsets W w' is)"

definition db_config_of :: "nat \<Rightarrow> db_config" where
  "db_config_of epoch =
     \<lparr>database_type = DATABASE_TYPE, ip_version = 4, record_size = 28, build_epoch = epoch\<rparr>"

subsection \<open>The temporary file\<close>

text \<open>
  \<open>TempFile\<close>: \<open>Some path\<close> until it is persisted. Every operation returns its result and
  the system calls it made, in order.
\<close>

type_synonym temp_file = "path option"

definition remove_quietly :: "faults \<Rightarrow> path \<Rightarrow> fs_op list" where
  "remove_quietly flt p = (case fail_remove flt of Some _ \<Rightarrow> [] | None \<Rightarrow> [Op_Remove p])"

definition temp_drop :: "faults \<Rightarrow> temp_file \<Rightarrow> fs_op list" where
  "temp_drop flt temp = (case temp of Some p \<Rightarrow> remove_quietly flt p | None \<Rightarrow> [])"

definition temp_write ::
  "faults \<Rightarrow> system_time \<Rightarrow> path \<Rightarrow> bytes \<Rightarrow> ('net build_error + temp_file) \<times> fs_op list" where
  "temp_write flt now p bs =
     (case fail_create flt of
        Some e \<Rightarrow> (Err (Create_Failed p e), [])
      | None \<Rightarrow>
          (let temp = Some p
           in case fail_write flt of
               Some (n, e) \<Rightarrow>
                 (Err (Write_Failed p e),
                  [Op_Create p now, Op_Write p (take n bs) now] @ temp_drop flt temp)
             | None \<Rightarrow>
                 (case fail_sync flt of
                    Some e \<Rightarrow>
                      (Err (Sync_Failed p e),
                       [Op_Create p now, Op_Write p bs now, Op_Sync p] @ temp_drop flt temp)
                  | None \<Rightarrow> (Ok temp, [Op_Create p now, Op_Write p bs now, Op_Sync p]))))"

text \<open>\<open>persist\<close> takes the path out first, so the drop at its end does nothing.\<close>

definition temp_persist ::
  "faults \<Rightarrow> path \<Rightarrow> path \<Rightarrow> ('net build_error + unit) \<times> fs_op list" where
  "temp_persist flt p target =
     (case fail_rename flt of
        Some e \<Rightarrow> (Err (Rename_Failed p target e), remove_quietly flt p @ temp_drop flt None)
      | None \<Rightarrow> (Ok (), [Op_Rename p target] @ temp_drop flt None))"

definition replace_file ::
  "faults \<Rightarrow> system_time \<Rightarrow> path \<Rightarrow> bytes \<Rightarrow> path \<Rightarrow> ('net build_error + unit) \<times> fs_op list" where
  "replace_file flt now temp_path bs target =
     (case temp_write flt now temp_path bs of
        (Inl e, ops) \<Rightarrow> (Err e, ops)
      | (Inr None, ops) \<Rightarrow> (Ok (), ops)
      | (Inr (Some p), ops) \<Rightarrow>
          (case temp_persist flt p target of (r, ops') \<Rightarrow> (r, ops @ ops')))"

subsection \<open>\<open>write_mmdb\<close>\<close>

definition serialise ::
  "('w, 'net) writer_api \<Rightarrow> nat \<Rightarrow> 'net ipset list \<Rightarrow> 'net build_error + bytes" where
  "serialise W epoch ipsets =
     (case insert_ipsets W (w_new W (db_config_of epoch)) ipsets of
        Inl e \<Rightarrow> Err e
      | Inr w \<Rightarrow> map_err Serialise_Failed (w_to_bytes W w))"

definition write_mmdb ::
  "('w, 'net) writer_api \<Rightarrow> faults \<Rightarrow> system_time \<Rightarrow> 'net ipset list \<Rightarrow> nat \<Rightarrow> path
    \<Rightarrow> ('net build_error + nat) \<times> fs_op list" where
  "write_mmdb W flt now ipsets epoch output =
     (case serialise W epoch ipsets of
        Inl e \<Rightarrow> (Err e, [])
      | Inr bs \<Rightarrow>
          (let bytes_len = length bs; temp_path = with_extension output ''tmp''
           in case replace_file flt now temp_path bs output of
               (Inl e, ops) \<Rightarrow> (Err e, ops)
             | (Inr _, ops) \<Rightarrow> (Ok bytes_len, ops)))"

subsection \<open>Rows: what a database should hold for an address\<close>

text \<open>Parallel arrays: column \<open>k\<close> of row \<open>i\<close> describes list \<open>i\<close>.\<close>

definition columns :: "(string \<times> metadata) list \<Rightarrow> mval" where
  "columns rows =
     (let col = (\<lambda>f. VArray (map (VString \<circ> f) rows))
      in VMap [(FILE_NAME, col fst), (SOURCE_FILE_DATE, col (source_file_date_rfc3339 \<circ> snd)),
           (LIST_SOURCE_URL, col (list_source_url \<circ> snd)),
           (MAINTAINER_URL, col (maintainer_url \<circ> snd)),
           (MAINTAINER, col (maintainer \<circ> snd)), (CATEGORY, col (category \<circ> snd))])"

definition rows_value :: "(string \<times> metadata) list \<Rightarrow> mval option" where
  "rows_value rows = (if rows = [] then None else Some (columns rows))"

definition entry_of_rows :: "(string \<times> metadata) list \<Rightarrow> firehol_entry" where
  "entry_of_rows rows =
     \<lparr>entry_file_name = map fst rows,
      entry_source_file_date = map (source_file_date_rfc3339 \<circ> snd) rows,
      entry_list_source_url = map (list_source_url \<circ> snd) rows,
      entry_maintainer_url = map (maintainer_url \<circ> snd) rows,
      entry_maintainer = map (maintainer \<circ> snd) rows,
      entry_category = map (category \<circ> snd) rows\<rparr>"

text \<open>The lists that cover an address, one row per covering network, in insertion order.\<close>

definition section_rows ::
  "('net \<Rightarrow> ipv4 \<Rightarrow> bool) \<Rightarrow> ipv4 \<Rightarrow> string \<Rightarrow> 'net net_section \<Rightarrow> (string \<times> metadata) list" where
  "section_rows covers a name s =
     map (\<lambda>_. (name, section_metadata s)) (filter (\<lambda>n. covers n a) (networks s))"

definition ipset_rows ::
  "('net \<Rightarrow> ipv4 \<Rightarrow> bool) \<Rightarrow> ipv4 \<Rightarrow> 'net ipset \<Rightarrow> (string \<times> metadata) list" where
  "ipset_rows covers a i = concat (map (section_rows covers a (file_name i)) (sections i))"

definition rows ::
  "('net \<Rightarrow> ipv4 \<Rightarrow> bool) \<Rightarrow> ipv4 \<Rightarrow> 'net ipset list \<Rightarrow> (string \<times> metadata) list" where
  "rows covers a ipsets = concat (map (ipset_rows covers a) ipsets)"

lemma mmdb_record_columns: "mmdb_record name m = columns [(name, m)]"
  by (simp add: mmdb_record_def columns_def Let_def)

lemma those_strings:
  "those (map (\<lambda>v. case v of VString s \<Rightarrow> Some s | _ \<Rightarrow> None) (map (VString \<circ> f) xs)) = Some (map f xs)"
  by (induction xs) auto

lemma entry_of_columns [simp]: "entry_of_value (columns rs) = Some (entry_of_rows rs)"
  by (simp add: columns_def entry_of_rows_def field_of_def key_defs Let_def those_strings
      del: map_map)

lemma set_rows:
  "set (rows covers a ipsets) =
     {(file_name i, section_metadata s) | i s n.
        i \<in> set ipsets \<and> s \<in> set (sections i) \<and> n \<in> set (networks s) \<and> covers n a}"
  by (auto simp: rows_def ipset_rows_def section_rows_def)

context mmdb_writer
begin

lemma merge_columns: "w_merge_deep W (columns xs) (columns ys) = columns (xs @ ys)"
proof -
  let ?ks = "[FILE_NAME, SOURCE_FILE_DATE, LIST_SOURCE_URL, MAINTAINER_URL, MAINTAINER, CATEGORY]"
  let ?fs = "[fst, source_file_date_rfc3339 \<circ> snd, list_source_url \<circ> snd, maintainer_url \<circ> snd,
    maintainer \<circ> snd, category \<circ> snd]"
  let ?cols = "\<lambda>rs. map (\<lambda>f. VArray (map (VString \<circ> f) rs)) ?fs"
  have cols: "columns rs = VMap (zip ?ks (?cols rs))" for rs
    by (simp add: columns_def Let_def)
  have "distinct ?ks" by (simp add: key_defs)
  then have "w_merge_deep W (VMap (zip ?ks (?cols xs))) (VMap (zip ?ks (?cols ys))) =
      VMap (zip ?ks (map2 (w_merge_deep W) (?cols xs) (?cols ys)))"
    by (intro merge_map) simp_all
  also have "map2 (w_merge_deep W) (?cols xs) (?cols ys) = ?cols (xs @ ys)"
    by (simp add: merge_array)
  finally show ?thesis by (simp only: cols)
qed

lemma merge_record_rows:
  "merge_record W (mmdb_record name m) (rows_value rs) = rows_value (rs @ [(name, m)])"
  by (simp add: merge_record_def rows_value_def mmdb_record_columns merge_columns)

lemma content_networks:
  "insert_networks W name (mmdb_record name m) w ns = Inr w' \<Longrightarrow> content w a = rows_value rs \<Longrightarrow>
    content w' a = rows_value (rs @ map (\<lambda>_. (name, m)) (filter (\<lambda>n. covers n a) ns))"
proof (induction ns arbitrary: w rs)
  case (Cons n ns)
  from Cons.prems(1) obtain u where u: "w_insert_with W w n (merge_record W (mmdb_record name m)) = Inr u"
    "insert_networks W name (mmdb_record name m) u ns = Inr w'"
    by (auto split: sum.splits)
  from content_insert [OF u(1), of a] Cons.prems(2)
  have "content u a = rows_value (if covers n a then rs @ [(name, m)] else rs)"
    by (simp add: merge_record_rows)
  from Cons.IH [OF u(2) this] show ?case by (simp split: if_splits)
qed simp

lemma content_sections:
  "insert_sections W name w ss = Inr w' \<Longrightarrow> content w a = rows_value rs \<Longrightarrow>
    content w' a = rows_value (rs @ concat (map (section_rows covers a name) ss))"
proof (induction ss arbitrary: w rs)
  case (Cons s ss)
  from Cons.prems(1) obtain u where
    u: "insert_networks W name (mmdb_record name (section_metadata s)) w (networks s) = Inr u"
    "insert_sections W name u ss = Inr w'"
    by (auto split: sum.splits)
  from Cons.IH [OF u(2) content_networks [OF u(1) Cons.prems(2)]]
  show ?case by (simp add: section_rows_def)
qed simp

lemma content_ipsets:
  "insert_ipsets W w is = Inr w' \<Longrightarrow> content w a = rows_value rs \<Longrightarrow>
    content w' a = rows_value (rs @ rows covers a is)"
proof (induction "is" arbitrary: w rs)
  case (Cons i "is")
  from Cons.prems(1) obtain u where
    u: "insert_sections W (file_name i) w (sections i) = Inr u" "insert_ipsets W u is = Inr w'"
    by (auto split: sum.splits)
  from Cons.IH [OF u(2) content_sections [OF u(1) Cons.prems(2)]]
  show ?case by (simp add: rows_def ipset_rows_def)
qed (simp add: rows_def)

lemma content_database:
  "insert_ipsets W (w_new W cfg) is = Inr w \<Longrightarrow> content w a = rows_value (rows covers a is)"
  using content_ipsets [of "w_new W cfg" "is" w a "[]"] by (simp add: content_new rows_value_def)

end

subsection \<open>Atomic replacement of a file\<close>

text \<open>
  What a writer of the database promises its readers: at every moment (after any number of the
  system calls it makes) the target is the old file or the complete new one; it is the new one
  exactly when the writer succeeds, and only the target and the temporary path are touched.
\<close>

locale atomic_replacer =
  fixes replace :: "'x \<Rightarrow> bytes \<Rightarrow> path \<Rightarrow> ('e + 'r) \<times> fs_op list"
    and temp_of :: "path \<Rightarrow> path"
  assumes crash:
      "temp_of q \<noteq> q \<Longrightarrow> replace x bs q = (r, ops) \<Longrightarrow>
        run_ops fs (take k ops) q = fs q \<or>
        map_option file_content (run_ops fs (take k ops) q) = Some bs"
    and success:
      "temp_of q \<noteq> q \<Longrightarrow> replace x bs q = (Inr y, ops) \<Longrightarrow>
        map_option file_content (run_ops fs ops q) = Some bs"
    and failure:
      "temp_of q \<noteq> q \<Longrightarrow> replace x bs q = (Inl e, ops) \<Longrightarrow> run_ops fs ops q = fs q"
    and frame:
      "replace x bs q = (r, ops) \<Longrightarrow> p \<noteq> q \<Longrightarrow> p \<noteq> temp_of q \<Longrightarrow>
        run_ops fs (take k ops) p = fs p"
begin

text \<open>A history of attempts to replace one file.\<close>

fun attempts :: "path \<Rightarrow> fs \<Rightarrow> ('x \<times> bytes) list \<Rightarrow> fs" where
  "attempts q fs [] = fs"
| "attempts q fs ((x, bs) # xs) = attempts q (run_ops fs (snd (replace x bs q))) xs"

fun latest :: "path \<Rightarrow> bytes option \<Rightarrow> ('x \<times> bytes) list \<Rightarrow> bytes option" where
  "latest q old [] = old"
| "latest q old ((x, bs) # xs) = latest q (if is_ok (fst (replace x bs q)) then Some bs else old) xs"

text \<open>After any history the file holds the data of the latest successful attempt.\<close>

lemma attempts_latest:
  "temp_of q \<noteq> q \<Longrightarrow>
    map_option file_content (attempts q fs xs q) = latest q (map_option file_content (fs q)) xs"
proof (induction xs arbitrary: fs)
  case (Cons a xs)
  obtain x bs where a: "a = (x, bs)" by fastforce
  obtain r ops where r: "replace x bs q = (r, ops)" by fastforce
  have "map_option file_content (run_ops fs ops q) =
      (if is_ok r then Some bs else map_option file_content (fs q))"
    using Cons.prems r by (cases r) (auto simp: success failure)
  then show ?case by (simp add: a r Cons.IH [OF Cons.prems])
qed simp

end

definition replace_database ::
  "faults \<times> system_time \<Rightarrow> bytes \<Rightarrow> path \<Rightarrow> ('net build_error + unit) \<times> fs_op list" where
  "replace_database x bs q = replace_file (fst x) (snd x) (with_extension q ''tmp'') bs q"

lemmas temp_file_defs = replace_file_def temp_write_def temp_persist_def temp_drop_def
  remove_quietly_def Let_def

lemma replace_file_crash:
  assumes "t \<noteq> q" "replace_file flt now t bs q = (r, ops)"
  shows "run_ops fs (take k ops) q = fs q \<or>
    run_ops fs (take k ops) q = Some \<lparr>file_content = bs, file_mtime = now\<rparr>"
  using assms
  by (auto simp: temp_file_defs take_Cons split: option.splits prod.splits nat.splits)

lemma replace_file_Ok:
  assumes "replace_file flt now t bs q = (Inr y, ops)"
  shows "run_ops fs ops q = Some \<lparr>file_content = bs, file_mtime = now\<rparr>"
    and "t \<noteq> q \<Longrightarrow> run_ops fs ops t = None"
  using assms by (auto simp: temp_file_defs split: option.splits prod.splits)

lemma replace_file_Err:
  assumes "t \<noteq> q" "replace_file flt now t bs q = (Inl e, ops)"
  shows "run_ops fs ops q = fs q"
    and "run_ops fs ops t = None \<or> ops = [] \<or> fail_remove flt \<noteq> None"
  using assms by (auto simp: temp_file_defs split: option.splits prod.splits)

lemma replace_file_frame:
  assumes "replace_file flt now t bs q = (r, ops)" "p \<noteq> q" "p \<noteq> t"
  shows "run_ops fs (take k ops) p = fs p"
proof -
  have "op_paths op \<subseteq> {q, t}" if "op \<in> set ops" for op
    using assms(1) that by (auto simp: temp_file_defs split: option.splits prod.splits)
  with assms(2,3) show ?thesis
    by (intro run_ops_other) (auto dest!: in_set_takeD)
qed

interpretation database_file: atomic_replacer replace_database "\<lambda>q. with_extension q ''tmp''"
proof unfold_locales
  fix q :: path and x bs r ops fs k
  assume "with_extension q ''tmp'' \<noteq> q" "replace_database x bs q = (r, ops)"
  from replace_file_crash [OF this [unfolded replace_database_def], of fs k]
  show "run_ops fs (take k ops) q = fs q \<or>
      map_option file_content (run_ops fs (take k ops) q) = Some bs"
    by auto
next
  fix q :: path and x bs y ops fs
  assume "replace_database x bs q = (Inr y, ops)"
  from replace_file_Ok(1) [OF this [unfolded replace_database_def], of fs]
  show "map_option file_content (run_ops fs ops q) = Some bs" by simp
qed (auto simp: replace_database_def replace_file_Err(1) replace_file_frame)

lemma serialise_lookup:
  assumes F: "mmdb_format W covers content G" and s: "serialise W epoch ipsets = Ok bs"
  shows "\<exists>rd. g_from_bytes G bs = Inr rd \<and>
    (\<forall>a. g_lookup G rd (V4 a) =
       (if rows covers a ipsets = [] then Inl NotFound
        else Inr (entry_of_rows (rows covers a ipsets)))) \<and>
    (\<forall>b. g_lookup G rd (V6 b) = Inl IPv4Only)"
proof -
  from s obtain w where w: "insert_ipsets W (w_new W (db_config_of epoch)) ipsets = Inr w"
    "w_to_bytes W w = Inr bs"
    by (auto simp: serialise_def split: sum.splits)
  obtain rd where rd: "g_from_bytes G bs = Inr rd"
    using mmdb_format.readable [OF F w(2)] by blast
  have "g_lookup G rd (V4 a) =
      (if rows covers a ipsets = [] then Inl NotFound
       else Inr (entry_of_rows (rows covers a ipsets)))" for a
  proof -
    have c: "content w a = rows_value (rows covers a ipsets)"
      by (rule mmdb_writer.content_database [OF mmdb_format.axioms(1) [OF F] w(1)])
    show ?thesis
    proof (cases "rows covers a ipsets = []")
      case True
      with c mmdb_format.lookup_absent [OF F w(2) rd, of a] show ?thesis
        by (simp add: rows_value_def)
    next
      case False
      with c mmdb_format.lookup_present [OF F w(2) rd, of a] show ?thesis
        by (simp add: rows_value_def)
    qed
  qed
  with rd mmdb_format.lookup_ipv6 [OF F w(2) rd] show ?thesis by blast
qed

lemma write_mmdb_replace:
  fixes W :: "('w, 'net) writer_api"
  assumes "serialise W epoch ipsets = Ok bs" "write_mmdb W flt now ipsets epoch output = (r, ops)"
  obtains r' :: "'net build_error + unit" where
    "replace_file flt now (with_extension output ''tmp'') bs output = (r', ops)"
    and "r = (case r' of Inl e \<Rightarrow> Inl e | Inr _ \<Rightarrow> Inr (length bs))"
proof -
  obtain r' :: "'net build_error + unit" and ops' where
    "replace_file flt now (with_extension output ''tmp'') bs output = (r', ops')"
    by fastforce
  with assms show thesis
    by (intro that [of r']) (auto simp: write_mmdb_def split: sum.splits)
qed

lemma write_mmdb_crash:
  fixes W :: "('w, 'net) writer_api"
  assumes "with_extension output ''tmp'' \<noteq> output"
    and "write_mmdb W flt now ipsets epoch output = (r, ops)"
  shows "run_ops fs (take k ops) output = fs output \<or>
    (\<exists>bs. serialise W epoch ipsets = Ok bs \<and>
       run_ops fs (take k ops) output = Some \<lparr>file_content = bs, file_mtime = now\<rparr>)"
proof (cases "serialise W epoch ipsets")
  case (Inr bs)
  obtain r' :: "'net build_error + unit"
    where "replace_file flt now (with_extension output ''tmp'') bs output = (r', ops)"
    using write_mmdb_replace [OF Inr assms(2)] .
  from replace_file_crash [OF assms(1) this] Inr show ?thesis by blast
qed (use assms(2) in \<open>simp add: write_mmdb_def\<close>)

lemma write_mmdb_frame:
  fixes W :: "('w, 'net) writer_api"
  assumes "write_mmdb W flt now ipsets epoch output = (r, ops)"
  shows "p = output \<or> p = with_extension output ''tmp'' \<or> run_ops fs ops p = fs p"
proof (cases "serialise W epoch ipsets")
  case (Inr bs)
  obtain r' :: "'net build_error + unit"
    where "replace_file flt now (with_extension output ''tmp'') bs output = (r', ops)"
    using write_mmdb_replace [OF Inr assms] .
  from replace_file_frame [OF this, of p fs "length ops"] show ?thesis by auto
qed (use assms in \<open>simp add: write_mmdb_def\<close>)

lemma write_mmdb_Err_file:
  fixes W :: "('w, 'net) writer_api"
  assumes "with_extension output ''tmp'' \<noteq> output"
    and "write_mmdb W flt now ipsets epoch output = (Inl e, ops)"
  shows "run_ops fs ops output = fs output"
proof (cases "serialise W epoch ipsets")
  case (Inr bs)
  obtain r' :: "'net build_error + unit" where
    r': "replace_file flt now (with_extension output ''tmp'') bs output = (r', ops)"
    and "Inl e = (case r' of Inl e \<Rightarrow> Inl e | Inr _ \<Rightarrow> Inr (length bs))"
    using write_mmdb_replace [OF Inr assms(2)] .
  then obtain e' where "r' = Inl e'" by (cases r') auto
  from replace_file_Err(1) [OF assms(1) r' [unfolded this]] show ?thesis .
qed (use assms in \<open>simp add: write_mmdb_def\<close>)

section \<open>Properties\<close>

text \<open>Two overlapping lists, as in the repository's tests.\<close>

definition sample_metadata :: "string \<Rightarrow> metadata" where
  "sample_metadata c = default_metadata\<lparr>category := c\<rparr>"

definition sample_ipsets :: "cidr ipset list" where
  "sample_ipsets =
     [\<lparr>file_name = ''abuse.ipset'', sections = [\<lparr>section_metadata = sample_metadata ''abuse'',
         networks = [\<lparr>cidr_addr = 0x0A000000, cidr_len = 8\<rparr>]\<rparr>]\<rparr>,
      \<lparr>file_name = ''spam.netset'', sections = [\<lparr>section_metadata = sample_metadata ''spam'',
         networks = [\<lparr>cidr_addr = 0x0A010000, cidr_len = 16\<rparr>]\<rparr>]\<rparr>]"

lemma sample_inserted: "is_ok (insert_ipsets ref_writer (w_new ref_writer (db_config_of 7)) sample_ipsets)"
  by code_simp

lemma sample_rows:
  "rows cidr_covers 0x0A010203 sample_ipsets =
     [(''abuse.ipset'', sample_metadata ''abuse''), (''spam.netset'', sample_metadata ''spam'')]"
  by code_simp

text \<open>
  C5. After the three insertion loops the search tree holds, for every address, the parallel
  arrays of all the lists that cover it, in insertion order, and nothing for an address that no
  list covers: overlapping networks deep-merge instead of overwriting each other.
\<close>

theorem insert_ipsets_rows:
  assumes "mmdb_writer W covers content"
    and "insert_ipsets W (w_new W cfg) ipsets = Ok w"
  shows "content w a =
    (if rows covers a ipsets = [] then None else Some (columns (rows covers a ipsets)))"
  using mmdb_writer.content_database [OF assms] by (simp add: rows_value_def)

theorem insert_ipsets_rows_witness:
  "\<exists>w. insert_ipsets ref_writer (w_new ref_writer (db_config_of 7)) sample_ipsets = Ok w \<and>
     ref_content w 0x0A010203 = Some (columns
       [(''abuse.ipset'', sample_metadata ''abuse''), (''spam.netset'', sample_metadata ''spam'')])"
proof -
  obtain w where w: "insert_ipsets ref_writer (w_new ref_writer (db_config_of 7)) sample_ipsets = Ok w"
    using sample_inserted unfolding is_ok_iff by blast
  from insert_ipsets_rows [OF ref_mmdb.mmdb_writer_axioms w, of "0x0A010203"] w
  show ?thesis by (simp add: sample_rows)
qed


lemma sample_serialised: "is_ok (serialise ref_writer 7 sample_ipsets)"
  by code_simp


text \<open>
  C11. Crash safety of the database file: unless the output itself is the temporary path, after
  any number of the system calls of \<open>write_mmdb\<close>, whatever fails, the output is the old file or
  the complete serialised database.
\<close>

theorem write_mmdb_crash_safe:
  fixes W :: "('w, 'net) writer_api"
  assumes "with_extension output ''tmp'' \<noteq> output"
    and "write_mmdb W flt now ipsets epoch output = (r, ops)"
  shows "run_ops fs (take k ops) output = fs output \<or>
    (\<exists>bs. serialise W epoch ipsets = Ok bs \<and>
       run_ops fs (take k ops) output = Some \<lparr>file_content = bs, file_mtime = now\<rparr>)"
  by (rule write_mmdb_crash [OF assms])

theorem write_mmdb_crash_safe_witness:
  "\<exists>r ops bs. write_mmdb ref_writer no_faults 5 sample_ipsets 7 [''data'', ''firehol.mmdb''] = (r, ops) \<and>
     (run_ops (\<lambda>_. None) (take 2 ops) [''data'', ''firehol.mmdb''] = None \<or>
      serialise ref_writer 7 sample_ipsets = Ok bs \<and>
      run_ops (\<lambda>_. None) (take 2 ops) [''data'', ''firehol.mmdb''] =
        Some \<lparr>file_content = bs, file_mtime = 5\<rparr>)"
proof -
  obtain r ops where w: "write_mmdb ref_writer no_faults 5 sample_ipsets 7 [''data'', ''firehol.mmdb''] = (r, ops)"
    by fastforce
  have "with_extension [''data'', ''firehol.mmdb''] ''tmp'' \<noteq> [''data'', ''firehol.mmdb'']"
    by code_simp
  from write_mmdb_crash_safe [OF this w, of "\<lambda>_. None" 2] w show ?thesis by blast
qed

text \<open>
  C21. Outcome of \<open>write_mmdb\<close>: on success the output is the serialised database, the returned
  size is its length and the temporary file is gone; on failure the output is untouched and no
  temporary file is left behind (unless its removal failed too, or nothing was done); no other
  path is ever touched.
\<close>

theorem write_mmdb_outcome:
  fixes W :: "('w, 'net) writer_api"
  assumes "with_extension output ''tmp'' \<noteq> output"
    and "write_mmdb W flt now ipsets epoch output = (r, ops)"
  shows "(case r of
      Ok n \<Rightarrow>
        \<exists>bs. serialise W epoch ipsets = Ok bs \<and> n = length bs \<and>
          run_ops fs ops output = Some \<lparr>file_content = bs, file_mtime = now\<rparr> \<and>
          run_ops fs ops (with_extension output ''tmp'') = None
    | Err e \<Rightarrow>
        run_ops fs ops output = fs output \<and>
        (run_ops fs ops (with_extension output ''tmp'') = None \<or> ops = [] \<or> fail_remove flt \<noteq> None))
    \<and> (p = output \<or> p = with_extension output ''tmp'' \<or> run_ops fs ops p = fs p)"
proof (cases "serialise W epoch ipsets")
  case (Inr bs)
  let ?t = "with_extension output ''tmp''"
  obtain r' :: "'net build_error + unit" where r': "replace_file flt now ?t bs output = (r', ops)"
    and r: "r = (case r' of Inl e \<Rightarrow> Inl e | Inr _ \<Rightarrow> Inr (length bs))"
    using write_mmdb_replace [OF Inr assms(2)] .
  have "p = output \<or> p = ?t \<or> run_ops fs ops p = fs p"
    by (rule write_mmdb_frame [OF assms(2)])
  moreover have "case r' of
      Inl e \<Rightarrow> run_ops fs ops output = fs output \<and>
        (run_ops fs ops ?t = None \<or> ops = [] \<or> fail_remove flt \<noteq> None)
    | Inr _ \<Rightarrow> run_ops fs ops output = Some \<lparr>file_content = bs, file_mtime = now\<rparr> \<and>
        run_ops fs ops ?t = None"
  proof (cases r')
    case (Inl e)
    then show ?thesis using replace_file_Err [OF assms(1) r' [unfolded Inl], of fs] by simp
  next
    case (Inr u)
    then show ?thesis using replace_file_Ok [OF r' [unfolded Inr], of fs] assms(1) by simp
  qed
  ultimately show ?thesis using Inr r by (cases r') auto
qed (use assms(2) in \<open>auto simp: write_mmdb_def\<close>)

theorem write_mmdb_outcome_witness:
  "\<exists>bs ops. write_mmdb ref_writer no_faults 5 sample_ipsets 7 [''data'', ''firehol.mmdb''] = (Ok (length bs), ops) \<and>
     run_ops (\<lambda>_. None) ops [''data'', ''firehol.mmdb''] = Some \<lparr>file_content = bs, file_mtime = 5\<rparr>"
proof -
  have neq: "with_extension [''data'', ''firehol.mmdb''] ''tmp'' \<noteq> [''data'', ''firehol.mmdb'']"
    by code_simp
  obtain bs where "serialise ref_writer 7 sample_ipsets = Ok bs"
    using sample_serialised unfolding is_ok_iff by blast
  then obtain ops where w: "write_mmdb ref_writer no_faults 5 sample_ipsets 7 [''data'', ''firehol.mmdb'']
      = (Ok (length bs), ops)"
    by (auto simp: write_mmdb_def temp_file_defs no_faults_def)
  from write_mmdb_outcome [OF neq w, of "\<lambda>_. None"] w \<open>serialise _ _ _ = _\<close> show ?thesis by auto
qed

text \<open>
  C29. The exception: when the configured output already has the extension \<open>tmp\<close>, the temporary
  path is the output itself. Nothing is atomic then: every moment of a build after its first call
  shows a partial or no file, and a failing write removes the database the program had.
\<close>

theorem tmp_output_not_atomic:
  assumes "with_extension output ''tmp'' = output" and "serialise W epoch ipsets = Ok bs"
    and "fail_create flt = None" "fail_write flt = Some (n, e)" "fail_remove flt = None"
  shows "run_ops fs (take 1 (snd (write_mmdb W flt now ipsets epoch output))) output =
      Some \<lparr>file_content = [], file_mtime = now\<rparr> \<and>
    run_ops fs (snd (write_mmdb W flt now ipsets epoch output)) output = None"
  using assms by (simp add: write_mmdb_def temp_file_defs)

theorem tmp_output_not_atomic_witness:
  "run_ops (\<lambda>_. Some \<lparr>file_content = [1], file_mtime = 0\<rparr>)
     (snd (write_mmdb ref_writer (no_faults\<lparr>fail_write := Some (3, IoOther ''disk full'')\<rparr>) 5
        sample_ipsets 7 [''data'', ''firehol.tmp''])) [''data'', ''firehol.tmp''] = None"
proof -
  obtain bs where ser: "serialise ref_writer 7 sample_ipsets = Ok bs"
    using sample_serialised unfolding is_ok_iff by blast
  have same: "with_extension [''data'', ''firehol.tmp''] ''tmp'' = [''data'', ''firehol.tmp'']"
    by code_simp
  show ?thesis
    by (rule tmp_output_not_atomic [OF same ser, THEN conjunct2]) (simp_all add: no_faults_def)
qed

end
