(* ===== verification/Git.thy ===== *)
theory Git
  imports Fs
begin

text \<open>
  \<open>src/firehol/git.rs\<close>: opening or cloning the list repository, fetching the tracked
  branch with a forced refspec, finding its tip and hard-resetting the working tree to it. The
  \<open>git2\<close> crate is a record of functions over the world that holds the clone; what the
  module relies on is the locale \<open>git_laws\<close>, and what it promises to the updater is the
  locale \<open>blocklist_source\<close>.
\<close>

subsection \<open>Git objects\<close>

text \<open>
  A tree as the program can observe it: the entries in order, each with its name (absent when it
  is not UTF-8) and its object. A subtree may fail to load. Entries that are neither trees nor
  blobs (commits of submodules) are \<open>Other_Object\<close>.
\<close>

datatype git_tree = Git_Tree "git_entry list"
  and git_entry = Git_Entry "string option" git_object
  and git_object = Subtree git_tree | Broken_Subtree string | Blob bytes | Other_Object

text \<open>The blobs of a tree with their paths, in the order of the entries.\<close>

fun tree_blobs :: "git_tree \<Rightarrow> (path \<times> bytes) list"
  and entry_blobs :: "git_entry \<Rightarrow> (path \<times> bytes) list" where
  "tree_blobs (Git_Tree es) = concat (map entry_blobs es)"
| "entry_blobs (Git_Entry (Some name) (Subtree t)) = map (\<lambda>(p, c). (name # p, c)) (tree_blobs t)"
| "entry_blobs (Git_Entry (Some name) (Blob c)) = [([name], c)]"
| "entry_blobs (Git_Entry (Some name) (Broken_Subtree e)) = []"
| "entry_blobs (Git_Entry (Some name) Other_Object) = []"
| "entry_blobs (Git_Entry None obj) = []"

subsection \<open>The \<open>git2\<close> crate and the directory it works on\<close>

datatype certificate_check_status = CertificateOk | CertificatePassthrough

record fetch_options =
  certificate_check :: "string \<Rightarrow> certificate_check_status"

datatype reset_type = Soft | Mixed | Hard

record ('w, 'repo, 'remote, 'oid, 'commit) git_api =
  read_dir :: "'w \<Rightarrow> path \<Rightarrow> io_error + string list"
  read_file :: "'w \<Rightarrow> path \<Rightarrow> io_error + bytes"
  repository_open :: "'w \<Rightarrow> path \<Rightarrow> string + 'repo"
  repository_clone :: "fetch_options \<Rightarrow> string \<Rightarrow> string \<Rightarrow> path \<Rightarrow> 'w \<Rightarrow> (string + 'repo) \<times> 'w"
    \<comment> \<open>\<open>RepoBuilder::new().fetch_options(opts).branch(branch).clone(url, path)\<close>\<close>
  find_remote :: "'repo \<Rightarrow> string \<Rightarrow> 'w \<Rightarrow> string + 'remote"
  create_remote :: "'repo \<Rightarrow> string \<Rightarrow> string \<Rightarrow> 'w \<Rightarrow> (string + 'remote) \<times> 'w"
    \<comment> \<open>\<open>Repository::remote(name, url)\<close>\<close>
  remote_fetch :: "'repo \<Rightarrow> 'remote \<Rightarrow> string list \<Rightarrow> fetch_options \<Rightarrow> 'w \<Rightarrow> (string + unit) \<times> 'w"
  find_reference :: "'repo \<Rightarrow> string \<Rightarrow> 'w \<Rightarrow> string + 'oid option"
    \<comment> \<open>the target of the reference, absent when it is not direct\<close>
  find_commit :: "'repo \<Rightarrow> 'oid \<Rightarrow> 'w \<Rightarrow> string + 'commit"
  set_reference :: "'repo \<Rightarrow> string \<Rightarrow> 'oid \<Rightarrow> bool \<Rightarrow> string \<Rightarrow> 'w \<Rightarrow> (string + unit) \<times> 'w"
  set_head :: "'repo \<Rightarrow> string \<Rightarrow> 'w \<Rightarrow> (string + unit) \<times> 'w"
  reset_to :: "'repo \<Rightarrow> 'commit \<Rightarrow> reset_type \<Rightarrow> 'w \<Rightarrow> (string + unit) \<times> 'w"
  commit_id :: "'commit \<Rightarrow> 'oid"
  commit_seconds :: "'commit \<Rightarrow> int" \<comment> \<open>\<open>commit.time().seconds()\<close>, an \<open>i64\<close>\<close>
  commit_tree :: "'commit \<Rightarrow> string + git_tree"

subsection \<open>The module\<close>

record git_repository =
  repo_path :: path
  repo_url :: string
  repo_branch :: string

datatype 'oid git_failure =
    Inspect_Failed path io_error
  | Open_Failed path string
  | Clone_Failed string string
  | Remote_Failed string
  | Fetch_Failed string string string
  | Branch_Not_Found string string
  | Not_A_Direct_Reference string
  | Commit_Not_Found 'oid string
  | Update_Ref_Failed string string
  | Set_Head_Failed string string
  | Reset_Failed string

definition REMOTE_NAME :: string where "REMOTE_NAME = ''origin''"

definition remote_ref_name :: "git_repository \<Rightarrow> string" where
  "remote_ref_name g = ''refs/remotes/'' @ REMOTE_NAME @ ''/'' @ repo_branch g"

definition local_ref_name :: "git_repository \<Rightarrow> string" where
  "local_ref_name g = ''refs/heads/'' @ repo_branch g"

text \<open>The certificate of the remote is accepted whatever it is.\<close>

definition fetch_options :: fetch_options where
  "fetch_options = \<lparr>certificate_check = (\<lambda>_. CertificateOk)\<rparr>"

definition is_missing_or_empty_dir ::
  "('w, 'repo, 'remote, 'oid, 'commit) git_api \<Rightarrow> path \<Rightarrow> 'w \<Rightarrow> 'oid git_failure + bool" where
  "is_missing_or_empty_dir A p w =
     (case read_dir A w p of
        Inr entries \<Rightarrow> Ok (entries = [])
      | Inl IoNotFound \<Rightarrow> Ok True
      | Inl IoNotADirectory \<Rightarrow> Ok False
      | Inl e \<Rightarrow> Err (Inspect_Failed p e))"

definition find_or_create_remote ::
  "('w, 'repo, 'remote, 'oid, 'commit) git_api \<Rightarrow> git_repository \<Rightarrow> 'repo \<Rightarrow> 'w
    \<Rightarrow> (string + 'remote) \<times> 'w" where
  "find_or_create_remote A g repo w =
     (case find_remote A repo REMOTE_NAME w of
        Inr remote \<Rightarrow> (Ok remote, w)
      | Inl _ \<Rightarrow> create_remote A repo REMOTE_NAME (repo_url g) w)"

definition refspec :: "git_repository \<Rightarrow> string" where
  "refspec g = ''+refs/heads/'' @ repo_branch g @ '':'' @ remote_ref_name g"

definition fetch ::
  "('w, 'repo, 'remote, 'oid, 'commit) git_api \<Rightarrow> git_repository \<Rightarrow> 'repo \<Rightarrow> 'w
    \<Rightarrow> ('oid git_failure + unit) \<times> 'w" where
  "fetch A g repo w =
     (case find_or_create_remote A g repo w of
        (Inl _, w') \<Rightarrow> (Err (Remote_Failed REMOTE_NAME), w')
      | (Inr remote, w') \<Rightarrow>
          (case remote_fetch A repo remote [refspec g] fetch_options w' of
             (r, w'') \<Rightarrow> (map_err (Fetch_Failed (repo_branch g) (repo_url g)) r, w'')))"

definition open_or_clone ::
  "('w, 'repo, 'remote, 'oid, 'commit) git_api \<Rightarrow> git_repository \<Rightarrow> 'w
    \<Rightarrow> ('oid git_failure + 'repo) \<times> 'w" where
  "open_or_clone A g w =
     (case is_missing_or_empty_dir A (repo_path g) w of
        Inl e \<Rightarrow> (Err e, w)
      | Inr False \<Rightarrow>
          (case repository_open A w (repo_path g) of
             Inl e \<Rightarrow> (Err (Open_Failed (repo_path g) e), w)
           | Inr repo \<Rightarrow>
               (case fetch A g repo w of
                  (Inl e, w') \<Rightarrow> (Err e, w')
                | (Inr _, w') \<Rightarrow> (Ok repo, w')))
      | Inr True \<Rightarrow>
          (case repository_clone A fetch_options (repo_branch g) (repo_url g) (repo_path g) w of
             (r, w') \<Rightarrow> (map_err (Clone_Failed (repo_url g)) r, w')))"

definition remote_tip ::
  "('w, 'repo, 'remote, 'oid, 'commit) git_api \<Rightarrow> git_repository \<Rightarrow> 'repo \<Rightarrow> 'w
    \<Rightarrow> 'oid git_failure + 'commit" where
  "remote_tip A g repo w =
     (let name = remote_ref_name g
      in case find_reference A repo name w of
          Inl e \<Rightarrow> Err (Branch_Not_Found name e)
        | Inr None \<Rightarrow> Err (Not_A_Direct_Reference name)
        | Inr (Some oid) \<Rightarrow> map_err (Commit_Not_Found oid) (find_commit A repo oid w))"

definition checkout ::
  "('w, 'repo, 'remote, 'oid, 'commit) git_api \<Rightarrow> git_repository \<Rightarrow> 'repo \<Rightarrow> 'commit \<Rightarrow> 'w
    \<Rightarrow> ('oid git_failure + unit) \<times> 'w" where
  "checkout A g repo commit w =
     (let local = local_ref_name g
      in case set_reference A repo local (commit_id A commit) True ''update to remote tip'' w of
          (Inl e, w1) \<Rightarrow> (Err (Update_Ref_Failed local e), w1)
        | (Inr _, w1) \<Rightarrow>
            (case set_head A repo local w1 of
               (Inl e, w2) \<Rightarrow> (Err (Set_Head_Failed local e), w2)
             | (Inr _, w2) \<Rightarrow>
                 (case reset_to A repo commit Hard w2 of
                    (r, w3) \<Rightarrow> (map_err Reset_Failed r, w3))))"

subsection \<open>What the module relies on\<close>

text \<open>
  \<open>upstream url branch\<close> is the tip the remote repository at \<open>url\<close> publishes while the
  program synchronises. A successful clone or forced fetch leaves the remote-tracking reference
  at it; a hard reset leaves the commit's blobs in the working directory.
\<close>

locale git_laws =
  fixes A :: "('w, 'repo, 'remote, 'oid, 'commit) git_api"
    and upstream :: "string \<Rightarrow> string \<Rightarrow> 'oid option"
    and remote_url :: "'remote \<Rightarrow> string"
    and workdir :: "'repo \<Rightarrow> path"
  assumes open_workdir: "repository_open A w p = Inr repo \<Longrightarrow> workdir repo = p"
    and clone_workdir: "repository_clone A opts b url p w = (Inr repo, w') \<Longrightarrow> workdir repo = p"
    and clone_tracks:
      "repository_clone A opts b url p w = (Inr repo, w') \<Longrightarrow>
        \<exists>oid. upstream url b = Some oid \<and>
          find_reference A repo (''refs/remotes/origin/'' @ b) w' = Inr (Some oid)"
    and created_url: "create_remote A repo name url w = (Inr remote, w') \<Longrightarrow> remote_url remote = url"
    and fetch_tracks:
      "remote_fetch A repo remote [''+refs/heads/'' @ b @ '':'' @ dst] opts w = (Inr u, w') \<Longrightarrow>
        CHR '':'' \<notin> set b \<Longrightarrow>
        \<exists>oid. upstream (remote_url remote) b = Some oid \<and>
          find_reference A repo dst w' = Inr (Some oid)"
    and found_commit: "find_commit A repo oid w = Inr c \<Longrightarrow> commit_id A c = oid"
    and reset_files:
      "reset_to A repo c Hard w = (Inr u, w') \<Longrightarrow> commit_tree A c = Inr t \<Longrightarrow>
        (rel, content) \<in> set (tree_blobs t) \<Longrightarrow>
        read_file A w' (workdir repo @ rel) = Inr content"

text \<open>
  The address the lists come from: the configured one for a fresh clone or a clone without a
  remote \<open>origin\<close>, else the one the existing clone has configured for \<open>origin\<close>.
\<close>

definition effective_url ::
  "('w, 'repo, 'remote, 'oid, 'commit) git_api \<Rightarrow> ('remote \<Rightarrow> string) \<Rightarrow> git_repository \<Rightarrow> 'w
    \<Rightarrow> string" where
  "effective_url A remote_url g w =
     (case (is_missing_or_empty_dir A (repo_path g) w, repository_open A w (repo_path g)) of
        (Inr False, Inr repo) \<Rightarrow>
          (case find_remote A repo REMOTE_NAME w of
             Inr remote \<Rightarrow> remote_url remote
           | Inl _ \<Rightarrow> repo_url g)
      | _ \<Rightarrow> repo_url g)"

subsection \<open>What the module promises\<close>

text \<open>
  The updater's view: opening yields a handle whose tip is the published commit, and after a
  checkout of a commit every blob of its tree is a file below the repository's path.
\<close>

locale blocklist_source =
  fixes opens :: "'w \<Rightarrow> ('e + 'repo) \<times> 'w"
    and tip :: "'repo \<Rightarrow> 'w \<Rightarrow> 'e + 'commit"
    and checks_out :: "'repo \<Rightarrow> 'commit \<Rightarrow> 'w \<Rightarrow> ('e + unit) \<times> 'w"
    and files_of :: "'commit \<Rightarrow> (path \<times> bytes) set"
    and reads :: "'w \<Rightarrow> path \<Rightarrow> 'ioe + bytes"
    and published :: "'w \<Rightarrow> 'commit \<Rightarrow> bool"
    and root :: path
  assumes tip_published: "opens w = (Inr repo, w1) \<Longrightarrow> tip repo w1 = Inr c \<Longrightarrow> published w c"
    and checked_out:
      "opens w = (Inr repo, w1) \<Longrightarrow> checks_out repo c w1 = (Inr u, w2) \<Longrightarrow>
        (rel, content) \<in> files_of c \<Longrightarrow> reads w2 (root @ rel) = Inr content"
begin

lemma synchronised:
  assumes "opens w = (Inr repo, w1)" "tip repo w1 = Inr c" "checks_out repo c w1 = (Inr u, w2)"
  shows "published w c \<and> (\<forall>(rel, content)\<in>files_of c. reads w2 (root @ rel) = Inr content)"
  using tip_published [OF assms(1,2)] checked_out [OF assms(1,3)] by blast

end

definition commit_blobs ::
  "('w, 'repo, 'remote, 'oid, 'commit) git_api \<Rightarrow> 'commit \<Rightarrow> (path \<times> bytes) set" where
  "commit_blobs A c = (case commit_tree A c of Inl _ \<Rightarrow> {} | Inr t \<Rightarrow> set (tree_blobs t))"

lemma remote_ref_origin: "remote_ref_name g = ''refs/remotes/origin/'' @ repo_branch g"
  by (simp add: remote_ref_name_def REMOTE_NAME_def)

lemma remote_tip_Ok_iff:
  "remote_tip A g repo w = Inr c \<longleftrightarrow>
     (\<exists>oid. find_reference A repo (remote_ref_name g) w = Inr (Some oid) \<and>
        find_commit A repo oid w = Inr c)"
  by (auto simp: remote_tip_def Let_def split: sum.splits option.splits)

lemma checkout_Ok_reset:
  "checkout A g repo c w = (Inr u, w') \<Longrightarrow> \<exists>w1 v. reset_to A repo c Hard w1 = (Inr v, w')"
  by (auto simp: checkout_def Let_def split: sum.splits prod.splits)

lemma open_or_clone_Ok_cases:
  assumes "open_or_clone A g w = (Inr repo, w')"
  obtains (opened) "is_missing_or_empty_dir A (repo_path g) w = Inr False"
      "repository_open A w (repo_path g) = Inr repo" "fetch A g repo w = (Inr (), w')"
  | (cloned) "is_missing_or_empty_dir A (repo_path g) w = Inr True"
      "repository_clone A fetch_options (repo_branch g) (repo_url g) (repo_path g) w = (Inr repo, w')"
  using assms by (auto simp: open_or_clone_def split: sum.splits prod.splits bool.splits)

context git_laws
begin

lemma open_or_clone_workdir: "open_or_clone A g w = (Inr repo, w') \<Longrightarrow> workdir repo = repo_path g"
  by (erule open_or_clone_Ok_cases) (auto dest: open_workdir clone_workdir)

lemma fetch_upstream:
  assumes "fetch A g repo w = (Inr u, w')" "CHR '':'' \<notin> set (repo_branch g)"
  shows "\<exists>oid. upstream (case find_remote A repo REMOTE_NAME w of
        Inr remote \<Rightarrow> remote_url remote | Inl _ \<Rightarrow> repo_url g) (repo_branch g) = Some oid \<and>
      find_reference A repo (remote_ref_name g) w' = Inr (Some oid)"
proof -
  from assms(1) obtain remote w1 where r: "find_or_create_remote A g repo w = (Inr remote, w1)"
    and f: "remote_fetch A repo remote [refspec g] fetch_options w1 = (Inr u, w')"
    by (auto simp: fetch_def split: sum.splits prod.splits)
  have url: "remote_url remote = (case find_remote A repo REMOTE_NAME w of
        Inr remote \<Rightarrow> remote_url remote | Inl _ \<Rightarrow> repo_url g)"
    using r by (auto simp: find_or_create_remote_def dest: created_url split: sum.splits)
  from fetch_tracks [OF f [unfolded refspec_def] assms(2)] url show ?thesis by simp
qed

lemma open_or_clone_upstream:
  assumes "open_or_clone A g w = (Inr repo, w')" "CHR '':'' \<notin> set (repo_branch g)"
  shows "\<exists>oid. upstream (effective_url A remote_url g w) (repo_branch g) = Some oid \<and>
    find_reference A repo (remote_ref_name g) w' = Inr (Some oid)"
  using assms(1)
proof (cases rule: open_or_clone_Ok_cases)
  case opened
  from fetch_upstream [OF opened(3) assms(2)] opened show ?thesis by (simp add: effective_url_def)
next
  case cloned
  from clone_tracks [OF cloned(2)] cloned(1) show ?thesis
    by (simp add: effective_url_def remote_ref_origin)
qed

lemma remote_tip_upstream:
  assumes "open_or_clone A g w = (Inr repo, w1)" "remote_tip A g repo w1 = Inr c"
    "CHR '':'' \<notin> set (repo_branch g)"
  shows "upstream (effective_url A remote_url g w) (repo_branch g) = Some (commit_id A c)"
  using open_or_clone_upstream [OF assms(1,3)] assms(2) found_commit
  by (auto simp: remote_tip_Ok_iff)

lemma checkout_files:
  assumes "open_or_clone A g w = (Inr repo, w1)" "checkout A g repo c w2 = (Inr u, w3)"
    "(rel, content) \<in> commit_blobs A c"
  shows "read_file A w3 (repo_path g @ rel) = Inr content"
proof -
  from assms(3) obtain t where t: "commit_tree A c = Inr t" "(rel, content) \<in> set (tree_blobs t)"
    by (auto simp: commit_blobs_def split: sum.splits)
  from checkout_Ok_reset [OF assms(2)] obtain w' v where "reset_to A repo c Hard w' = (Inr v, w3)"
    by blast
  from reset_files [OF this t] open_or_clone_workdir [OF assms(1)] show ?thesis by simp
qed

end

sublocale git_laws \<subseteq> sync: blocklist_source
  "open_or_clone A \<lparr>repo_path = p, repo_url = url, repo_branch = b\<rparr>"
  "remote_tip A \<lparr>repo_path = p, repo_url = url, repo_branch = b\<rparr>"
  "checkout A \<lparr>repo_path = p, repo_url = url, repo_branch = b\<rparr>"
  "commit_blobs A" "read_file A"
  "\<lambda>w c. CHR '':'' \<notin> set b \<longrightarrow>
     upstream (effective_url A remote_url \<lparr>repo_path = p, repo_url = url, repo_branch = b\<rparr> w) b =
     Some (commit_id A c)"
  p for p url b
proof (unfold_locales, goal_cases)
  case (1 w repo w1 c)
  then show ?case using remote_tip_upstream by fastforce
next
  case (2 w repo w1 c u w2 rel content)
  then show ?case using checkout_files by fastforce
qed

end
