(* ===== verification/Tree_Walk.thy ===== *)
theory Tree_Walk
  imports Git
begin

text \<open>
  The selection of list files in \<open>src/firehol/mod.rs\<close>: the recursive walk of a commit's tree
  with its mutable path prefix and result vector, its error path and the country directories it
  prunes; related to a filter of the tree's blobs.
\<close>

definition COUNTRY_DIR_SUFFIX :: string where "COUNTRY_DIR_SUFFIX = ''_country''"

definition is_ipset_file :: "string \<Rightarrow> bool" where
  "is_ipset_file name \<longleftrightarrow> ends_with name ''.ipset'' \<or> ends_with name ''.netset''"

datatype collect_error = Name_Not_Utf8 | Tree_Unreadable string string

text \<open>
  The prefix \<open>dir\<close> and \<open>files\<close> are passed by mutable reference in the code, so their final values
  are returned next to the result, also when the walk fails.
\<close>

fun collect_recursive ::
  "bool \<Rightarrow> git_tree \<Rightarrow> path \<Rightarrow> path list \<Rightarrow> (collect_error + unit) \<times> path \<times> path list"
and collect_entries ::
  "bool \<Rightarrow> git_entry list \<Rightarrow> path \<Rightarrow> path list \<Rightarrow> (collect_error + unit) \<times> path \<times> path list"
where
  "collect_recursive ignore_country (Git_Tree es) dir files =
     collect_entries ignore_country es dir files"
| "collect_entries ignore_country [] dir files = (Ok (), dir, files)"
| "collect_entries ignore_country (Git_Entry None obj # es) dir files =
     (Err Name_Not_Utf8, dir, files)"
| "collect_entries ignore_country (Git_Entry (Some name) (Subtree t) # es) dir files =
     (if ignore_country \<and> ends_with name COUNTRY_DIR_SUFFIX
      then collect_entries ignore_country es dir files
      else case collect_recursive ignore_country t (dir @ [name]) files of
          (result, dir', files') \<Rightarrow>
            (case result of
               Inl e \<Rightarrow> (Err e, butlast dir', files')
             | Inr _ \<Rightarrow> collect_entries ignore_country es (butlast dir') files'))"
| "collect_entries ignore_country (Git_Entry (Some name) (Broken_Subtree e) # es) dir files =
     (if ignore_country \<and> ends_with name COUNTRY_DIR_SUFFIX
      then collect_entries ignore_country es dir files
      else (Err (Tree_Unreadable name e), dir, files))"
| "collect_entries ignore_country (Git_Entry (Some name) (Blob c) # es) dir files =
     collect_entries ignore_country es dir
       (if is_ipset_file name then files @ [dir @ [name]] else files)"
| "collect_entries ignore_country (Git_Entry (Some name) Other_Object # es) dir files =
     collect_entries ignore_country es dir files"

definition collect_ipset_files :: "bool \<Rightarrow> git_tree \<Rightarrow> collect_error + path list" where
  "collect_ipset_files ignore_country t =
     (case collect_recursive ignore_country t [] [] of
        (Inl e, _, _) \<Rightarrow> Err e
      | (Inr _, _, files) \<Rightarrow> Ok files)"

subsection \<open>The selection as a filter\<close>

definition pruned :: "bool \<Rightarrow> string \<Rightarrow> bool" where
  "pruned ignore_country name \<longleftrightarrow> ignore_country \<and> ends_with name COUNTRY_DIR_SUFFIX"

text \<open>A list file outside every pruned directory.\<close>

definition selected :: "bool \<Rightarrow> path \<Rightarrow> bool" where
  "selected ignore_country p \<longleftrightarrow>
     is_ipset_file (last p) \<and> (\<forall>name\<in>set (butlast p). \<not> pruned ignore_country name)"

text \<open>Every entry that is not below a pruned directory has a UTF-8 name and can be read.\<close>

fun readable :: "bool \<Rightarrow> git_tree \<Rightarrow> bool"
  and entry_readable :: "bool \<Rightarrow> git_entry \<Rightarrow> bool" where
  "readable ic (Git_Tree es) \<longleftrightarrow> list_all (entry_readable ic) es"
| "entry_readable ic (Git_Entry None obj) \<longleftrightarrow> False"
| "entry_readable ic (Git_Entry (Some name) (Subtree t)) \<longleftrightarrow> pruned ic name \<or> readable ic t"
| "entry_readable ic (Git_Entry (Some name) (Broken_Subtree e)) \<longleftrightarrow> pruned ic name"
| "entry_readable ic (Git_Entry (Some name) (Blob c)) \<longleftrightarrow> True"
| "entry_readable ic (Git_Entry (Some name) Other_Object) \<longleftrightarrow> True"

definition selected_paths :: "bool \<Rightarrow> (path \<times> bytes) list \<Rightarrow> path list" where
  "selected_paths ic blobs = filter (selected ic) (map fst blobs)"

lemma selected_paths_simps [simp]:
  "selected_paths ic [] = []"
  "selected_paths ic (xs @ ys) = selected_paths ic xs @ selected_paths ic ys"
  "selected_paths ic ((p, c) # xs) = (if selected ic p then p # selected_paths ic xs else selected_paths ic xs)"
  by (simp_all add: selected_paths_def)

lemma selected_single [simp]: "selected ic [name] \<longleftrightarrow> is_ipset_file name"
  by (simp add: selected_def)

lemma selected_Cons: "p \<noteq> [] \<Longrightarrow> selected ic (name # p) \<longleftrightarrow> \<not> pruned ic name \<and> selected ic p"
  by (auto simp: selected_def)

lemma blobs_nonempty:
  "(p, c) \<in> set (tree_blobs t) \<Longrightarrow> p \<noteq> []"
  "(p, c) \<in> set (entry_blobs e) \<Longrightarrow> p \<noteq> []"
  by (induction t and e arbitrary: p c and p c rule: tree_blobs_entry_blobs.induct) auto

lemma selected_paths_below:
  assumes "\<forall>(p, c)\<in>set blobs. p \<noteq> []"
  shows "selected_paths ic (map (\<lambda>(p, c). (name # p, c)) blobs) =
    (if pruned ic name then [] else map ((#) name) (selected_paths ic blobs))"
  using assms by (induction blobs) (auto simp: selected_paths_def selected_Cons)

lemma selected_subtree:
  "selected_paths ic (entry_blobs (Git_Entry (Some name) (Subtree t))) =
    (if pruned ic name then [] else map ((#) name) (selected_paths ic (tree_blobs t)))"
proof -
  have "\<forall>(p, c)\<in>set (tree_blobs t). p \<noteq> []" using blobs_nonempty(1) [of _ _ t] by blast
  from selected_paths_below [OF this] show ?thesis by simp
qed

lemma collect_Ok:
  "readable ic t \<Longrightarrow>
    collect_recursive ic t dir files =
      (Ok (), dir, files @ map ((@) dir) (selected_paths ic (tree_blobs t)))"
  "list_all (entry_readable ic) es \<Longrightarrow>
    collect_entries ic es dir files =
      (Ok (), dir, files @ map ((@) dir) (selected_paths ic (concat (map entry_blobs es))))"
proof (induction ic t dir files and ic es dir files rule: collect_recursive_collect_entries.induct)
  case (4 ic name t es dir files)
  then show ?case
    by (auto simp: selected_subtree pruned_def simp del: entry_blobs.simps)
qed (auto simp: pruned_def)

lemma collect_Err:
  "\<not> readable ic t \<Longrightarrow> \<exists>e files'. collect_recursive ic t dir files = (Err e, dir, files')"
  "\<not> list_all (entry_readable ic) es \<Longrightarrow>
    \<exists>e files'. collect_entries ic es dir files = (Err e, dir, files')"
proof (induction ic t dir files and ic es dir files rule: collect_recursive_collect_entries.induct)
  case (4 ic name t es dir files)
  show ?case
  proof (cases "pruned ic name")
    case True
    with 4 show ?thesis by (simp add: pruned_def)
  next
    case False
    show ?thesis
    proof (cases "readable ic t")
      case True
      from False have "\<not> (ic \<and> ends_with name COUNTRY_DIR_SUFFIX)" by (simp add: pruned_def)
      with 4 True collect_Ok(1) [OF True, of "dir @ [name]" files] show ?thesis by auto
    next
      case unreadable: False
      with 4(2) False show ?thesis by (auto simp: pruned_def)
    qed
  qed
qed (auto simp: pruned_def)

lemma collect_ipset_files_spec:
  "(case collect_ipset_files ic t of
      Ok files \<Rightarrow> readable ic t \<and> files = selected_paths ic (tree_blobs t)
    | Err e \<Rightarrow> \<not> readable ic t)"
proof (cases "readable ic t")
  case True
  from collect_Ok(1) [OF True, of "[]" "[]"] True show ?thesis
    by (simp add: collect_ipset_files_def map_idI)
next
  case False
  from collect_Err(1) [OF False, of "[]" "[]"] False show ?thesis
    by (auto simp: collect_ipset_files_def)
qed

lemma collected_selected:
  "collect_ipset_files ic t = Inr files \<Longrightarrow> files = selected_paths ic (tree_blobs t)"
  using collect_ipset_files_spec [of ic t] by simp

section \<open>Properties\<close>

text \<open>
  C14. File selection: the walk returns, in the order of the tree, exactly the blobs whose name
  ends in \<open>.ipset\<close> or \<open>.netset\<close> and which lie in no ignored country directory, each with its
  full path from the root; it fails exactly when an entry outside the ignored directories has a
  name that is not UTF-8 or a subtree that cannot be read.
\<close>

theorem collect_ipset_files_selected:
  "(case collect_ipset_files ic t of
      Ok files \<Rightarrow> readable ic t \<and> files = selected_paths ic (tree_blobs t)
    | Err e \<Rightarrow> \<not> readable ic t)"
  by (rule collect_ipset_files_spec)

end
