(* ===== verification/Git_Reference.thy ===== *)
theory Git_Reference
  imports Git
begin

text \<open>
  A reference world for the laws of \<open>git_laws\<close>: at most one clone, with its references,
  remotes and working files; remote repositories are a function from address and branch to the
  published commit. It is no model of \<open>git2\<close>: it shows that the laws can hold together, and
  witnesses compute with it.
\<close>

record rg_commit =
  rg_time :: int
  rg_tree :: git_tree

record rg_repo =
  rg_refs :: "string \<Rightarrow> rg_commit option"
  rg_remotes :: "string \<Rightarrow> string option"
  rg_files :: "(path \<times> bytes) list"

type_synonym rg_world = "(path \<times> rg_repo) option"

definition rg_read_dir :: "rg_world \<Rightarrow> path \<Rightarrow> io_error + string list" where
  "rg_read_dir w p =
     (case w of
        None \<Rightarrow> Inl IoNotFound
      | Some (q, r) \<Rightarrow> if p = q then Inr [''.git''] else Inl IoNotFound)"

definition rg_read_file :: "rg_world \<Rightarrow> path \<Rightarrow> io_error + bytes" where
  "rg_read_file w f =
     (case w of
        None \<Rightarrow> Inl IoNotFound
      | Some (q, r) \<Rightarrow>
          (if take (length q) f = q then
             (case map_of (rg_files r) (drop (length q) f) of
                None \<Rightarrow> Inl IoNotFound | Some c \<Rightarrow> Inr c)
           else Inl IoNotFound))"

definition rg_open :: "rg_world \<Rightarrow> path \<Rightarrow> string + path" where
  "rg_open w p = (case w of Some (q, r) \<Rightarrow> if p = q then Inr q else Inl ''no repository'' | None \<Rightarrow> Inl ''no repository'')"

definition with_repo ::
  "path \<Rightarrow> rg_world \<Rightarrow> (rg_repo \<Rightarrow> string + 'a \<times> rg_repo) \<Rightarrow> (string + 'a) \<times> rg_world" where
  "with_repo p w f =
     (case w of
        None \<Rightarrow> (Inl ''no repository'', w)
      | Some (q, r) \<Rightarrow>
          (if p = q then (case f r of Inl e \<Rightarrow> (Inl e, w) | Inr (x, r') \<Rightarrow> (Inr x, Some (q, r')))
           else (Inl ''no repository'', w)))"

definition rg_clone ::
  "(string \<Rightarrow> string \<Rightarrow> rg_commit option) \<Rightarrow> fetch_options \<Rightarrow> string \<Rightarrow> string \<Rightarrow> path \<Rightarrow> rg_world
    \<Rightarrow> (string + path) \<times> rg_world" where
  "rg_clone U opts b url p w =
     (case U url b of
        None \<Rightarrow> (Inl ''branch not found'', w)
      | Some c \<Rightarrow>
          (Inr p, Some (p, \<lparr>rg_refs = [''refs/remotes/origin/'' @ b \<mapsto> c], rg_remotes = [''origin'' \<mapsto> url],
             rg_files = []\<rparr>)))"

definition rg_find_remote :: "path \<Rightarrow> string \<Rightarrow> rg_world \<Rightarrow> string + string" where
  "rg_find_remote p name w =
     (case w of
        None \<Rightarrow> Inl ''no repository''
      | Some (q, r) \<Rightarrow> (case rg_remotes r name of None \<Rightarrow> Inl ''no remote'' | Some url \<Rightarrow> Inr url))"

definition rg_create_remote :: "path \<Rightarrow> string \<Rightarrow> string \<Rightarrow> rg_world \<Rightarrow> (string + string) \<times> rg_world" where
  "rg_create_remote p name url w =
     with_repo p w (\<lambda>r. Inr (url, r\<lparr>rg_remotes := (rg_remotes r)(name \<mapsto> url)\<rparr>))"

text \<open>One refspec \<open>[+]refs/heads/branch:dst\<close>; without the plus sign a different old target is kept.\<close>

definition rg_fetch ::
  "(string \<Rightarrow> string \<Rightarrow> rg_commit option) \<Rightarrow> path \<Rightarrow> string \<Rightarrow> string list \<Rightarrow> fetch_options \<Rightarrow> rg_world
    \<Rightarrow> (string + unit) \<times> rg_world" where
  "rg_fetch U p url specs opts w =
     with_repo p w (\<lambda>r.
       case specs of
         [spec] \<Rightarrow>
           (let forced = (strip_prefix_char CHR ''+'' spec \<noteq> None);
                body = (case strip_prefix_char CHR ''+'' spec of Some s \<Rightarrow> s | None \<Rightarrow> spec)
            in case split_once CHR '':'' body of
                None \<Rightarrow> Inl ''bad refspec''
              | Some (src, dst) \<Rightarrow>
                  (if take 11 src = ''refs/heads/'' then
                     (case U url (drop 11 src) of
                        None \<Rightarrow> Inl ''branch not found''
                      | Some c \<Rightarrow>
                          (if forced \<or> rg_refs r dst = None \<or> rg_refs r dst = Some c
                           then Inr ((), r\<lparr>rg_refs := (rg_refs r)(dst \<mapsto> c)\<rparr>)
                           else Inl ''not a fast-forward''))
                   else Inl ''bad refspec''))
       | _ \<Rightarrow> Inl ''bad refspec'')"

definition rg_find_reference :: "path \<Rightarrow> string \<Rightarrow> rg_world \<Rightarrow> string + rg_commit option" where
  "rg_find_reference p name w =
     (case w of
        None \<Rightarrow> Inl ''no repository''
      | Some (q, r) \<Rightarrow> (case rg_refs r name of None \<Rightarrow> Inl ''no reference'' | Some c \<Rightarrow> Inr (Some c)))"

definition rg_set_reference ::
  "path \<Rightarrow> string \<Rightarrow> rg_commit \<Rightarrow> bool \<Rightarrow> string \<Rightarrow> rg_world \<Rightarrow> (string + unit) \<times> rg_world" where
  "rg_set_reference p name c forced msg w =
     with_repo p w (\<lambda>r.
       if forced \<or> rg_refs r name = None then Inr ((), r\<lparr>rg_refs := (rg_refs r)(name \<mapsto> c)\<rparr>)
       else Inl ''reference exists'')"

definition rg_set_head :: "path \<Rightarrow> string \<Rightarrow> rg_world \<Rightarrow> (string + unit) \<times> rg_world" where
  "rg_set_head p name w =
     with_repo p w (\<lambda>r. if rg_refs r name = None then Inl ''no reference'' else Inr ((), r))"

definition rg_reset :: "path \<Rightarrow> rg_commit \<Rightarrow> reset_type \<Rightarrow> rg_world \<Rightarrow> (string + unit) \<times> rg_world" where
  "rg_reset p c kind w =
     with_repo p w (\<lambda>r.
       let blobs = tree_blobs (rg_tree c)
       in if kind = Hard then
            (if distinct (map fst blobs) then Inr ((), r\<lparr>rg_files := blobs\<rparr>) else Inl ''bad tree'')
          else Inr ((), r))"

definition ref_git ::
  "(string \<Rightarrow> string \<Rightarrow> rg_commit option) \<Rightarrow> (rg_world, path, string, rg_commit, rg_commit) git_api" where
  "ref_git U =
     \<lparr>read_dir = rg_read_dir, read_file = rg_read_file, repository_open = rg_open,
      repository_clone = rg_clone U, find_remote = rg_find_remote, create_remote = rg_create_remote,
      remote_fetch = rg_fetch U, find_reference = rg_find_reference,
      find_commit = (\<lambda>p c w. Inr c), set_reference = rg_set_reference, set_head = rg_set_head,
      reset_to = rg_reset, commit_id = (\<lambda>c. c), commit_seconds = rg_time,
      commit_tree = (\<lambda>c. Inr (rg_tree c))\<rparr>"

lemmas rg_defs [api_simps] = rg_read_dir_def rg_read_file_def rg_open_def with_repo_def rg_clone_def
  rg_find_remote_def rg_create_remote_def rg_fetch_def rg_find_reference_def rg_set_reference_def
  rg_set_head_def rg_reset_def

lemma refspec_split:
  assumes "CHR '':'' \<notin> set b"
  shows "split_once CHR '':'' (''refs/heads/'' @ b @ CHR '':'' # dst) = Some (''refs/heads/'' @ b, dst)"
  using split_once_append [of "CHR '':''" "''refs/heads/'' @ b" dst] assms by simp

interpretation ref_git: git_laws "ref_git U" U "\<lambda>url. url" "\<lambda>p. p"
proof (unfold_locales, goal_cases)
  case (5 p remote b dst opts w u w')
  from 5(2) have "split_once CHR '':'' (''refs/heads/'' @ b @ '':'' @ dst) = Some (''refs/heads/'' @ b, dst)"
    using refspec_split [of b dst] by simp
  with 5(1) show ?case
    by (auto simp: ref_git_def rg_defs Let_def
        split: option.splits if_splits sum.splits prod.splits)
next
  case (7 p c w u w' t rel content)
  then obtain r where w: "w = Some (p, r)" "distinct (map fst (tree_blobs t))"
    "w' = Some (p, r\<lparr>rg_files := tree_blobs t\<rparr>)"
    by (auto simp: ref_git_def rg_reset_def with_repo_def Let_def split: option.splits if_splits sum.splits)
  with 7(3) show ?case by (simp add: ref_git_def rg_read_file_def)
qed (auto simp: ref_git_def rg_defs split: option.splits if_splits sum.splits prod.splits)

section \<open>Properties\<close>

text \<open>A repository with two lists, one of them in a country directory, and a file that is no list.\<close>

definition bytes_of_str :: "string \<Rightarrow> bytes" where
  "bytes_of_str s = map of_char s"

definition sample_tree :: git_tree where
  "sample_tree = Git_Tree
     [Git_Entry (Some ''README.md'') (Blob (bytes_of_str ''lists'')),
      Git_Entry (Some ''abuse.ipset'') (Blob (bytes_of_str (''# Category: abuse'' @ [newline] @ ''10.0.0.0/8''))),
      Git_Entry (Some ''dbip_country'') (Subtree (Git_Tree
        [Git_Entry (Some ''fr.netset'') (Blob (bytes_of_str ''11.0.0.0/8''))]))]"

definition sample_upstream :: "string \<Rightarrow> string \<Rightarrow> rg_commit option" where
  "sample_upstream url b =
     (if url = ''lists.git'' \<and> b = ''master'' then Some \<lparr>rg_time = 7, rg_tree = sample_tree\<rparr> else None)"


text \<open>A clone of an older state of the same repository, whose history the remote has rewritten.\<close>

definition stale_clone :: rg_world where
  "stale_clone = Some ([''clone''],
     \<lparr>rg_refs = [''refs/remotes/origin/master'' \<mapsto> \<lparr>rg_time = 3, rg_tree = Git_Tree []\<rparr>],
      rg_remotes = [''origin'' \<mapsto> ''lists.git''], rg_files = []\<rparr>)"

definition sample_repository :: git_repository where
  "sample_repository = \<lparr>repo_path = [''clone''], repo_url = ''lists.git'', repo_branch = ''master''\<rparr>"

lemma stale_clone_synchronised:
  "(case open_or_clone (ref_git sample_upstream) sample_repository stale_clone of
      (Inl _, _) \<Rightarrow> False
    | (Inr rep, w1) \<Rightarrow>
        (case remote_tip (ref_git sample_upstream) sample_repository rep w1 of
           Inl _ \<Rightarrow> False
         | Inr tip \<Rightarrow>
             rg_time tip = 7 \<and>
             fst (checkout (ref_git sample_upstream) sample_repository rep tip w1) = Ok ()))"
  by code_simp

text \<open>
  C13. Synchronisation: opening (or cloning), finding the tip and checking it out yields the
  commit the remote currently publishes, also when its history was rewritten since the last fetch,
  and every blob of the commit as a file below the repository's path. The remote is the one an
  existing clone has configured; only a fresh clone is certain to use the configured address.
\<close>

theorem synchronise_published:
  assumes "git_laws A upstream remote_url workdir"
    and "open_or_clone A g w = (Ok rep, w1)" "remote_tip A g rep w1 = Ok tip"
    and "checkout A g rep tip w1 = (Ok (), w2)" "CHR '':'' \<notin> set (repo_branch g)"
  shows "upstream (effective_url A remote_url g w) (repo_branch g) = Some (commit_id A tip) \<and>
    (\<forall>(rel, content)\<in>commit_blobs A tip. read_file A w2 (repo_path g @ rel) = Ok content)"
  using git_laws.remote_tip_upstream [OF assms(1-3,5)] git_laws.checkout_files [OF assms(1,2,4)]
  by blast

theorem synchronise_published_witness:
  "\<exists>rep w1 tip w2. open_or_clone (ref_git sample_upstream) sample_repository stale_clone = (Ok rep, w1) \<and>
     remote_tip (ref_git sample_upstream) sample_repository rep w1 = Ok tip \<and>
     checkout (ref_git sample_upstream) sample_repository rep tip w1 = (Ok (), w2) \<and>
     sample_upstream ''lists.git'' ''master'' = Some tip"
proof -
  from stale_clone_synchronised obtain rep w1 tip w2 where sync:
    "open_or_clone (ref_git sample_upstream) sample_repository stale_clone = (Ok rep, w1)"
    "remote_tip (ref_git sample_upstream) sample_repository rep w1 = Ok tip"
    "checkout (ref_git sample_upstream) sample_repository rep tip w1 = (Ok (), w2)"
    by (auto split: prod.splits sum.splits) (metis prod.collapse)
  have url: "effective_url (ref_git sample_upstream) (\<lambda>url. url) sample_repository stale_clone = ''lists.git''"
    by code_simp
  have branch: "repo_branch sample_repository = ''master''" by (simp add: sample_repository_def)
  then have "CHR '':'' \<notin> set (repo_branch sample_repository)" by simp
  from synchronise_published [OF ref_git.git_laws_axioms sync this] sync url branch show ?thesis
    by (auto simp: ref_git_def)
qed

text \<open>
  The configured address has no effect on an existing clone: its \<open>origin\<close> wins, although the
  log names the configured address.
\<close>

lemma configured_url_ignored:
  "effective_url (ref_git U) (\<lambda>url. url) (sample_repository\<lparr>repo_url := other\<rparr>) stale_clone = ''lists.git''"
  by (simp add: effective_url_def is_missing_or_empty_dir_def ref_git_def rg_defs stale_clone_def
      sample_repository_def REMOTE_NAME_def)

end
