(* ===== verification/Firehol.thy ===== *)
theory Firehol
  imports Builder Tree_Walk Git_Reference
begin

text \<open>
  \<open>src/firehol/mod.rs\<close>: the updater. One run synchronises the repository, compares the
  commit's time with the database file's, selects and parses the lists and writes the database;
  every early return is a branch. The lists are parsed in parallel by \<open>rayon\<close>'s indexed
  iterator, which keeps their order, so the parallel map is a map here.
\<close>

subsection \<open>Time\<close>

definition system_time_to_epoch :: "system_time \<Rightarrow> int" where
  "system_time_to_epoch t =
     (if t < 0 then 0
      else let secs = t div 10 ^ 9 in if secs \<le> i64_max then secs else i64_max)"

text \<open>
  \<open>fs::metadata(path)\<close>, and then \<open>modified()\<close> on the metadata, each of which may fail.
\<close>

type_synonym stat_result = "io_error + (io_error + system_time)"

definition stat_of :: "fs \<Rightarrow> path \<Rightarrow> stat_result" where
  "stat_of fs p = (case fs p of None \<Rightarrow> Inl IoNotFound | Some f \<Rightarrow> Inr (Inr (file_mtime f)))"

datatype stat_failure = Mtime_Failed path io_error | Metadata_Failed path io_error

definition modified_epoch :: "(path \<Rightarrow> stat_result) \<Rightarrow> path \<Rightarrow> stat_failure + int" where
  "modified_epoch stat p =
     (case stat p of
        Inr metadata \<Rightarrow>
          (case metadata of
             Inl e \<Rightarrow> Err (Mtime_Failed p e)
           | Inr modified \<Rightarrow> Ok (system_time_to_epoch modified))
      | Inl IoNotFound \<Rightarrow> Ok 0
      | Inl e \<Rightarrow> Err (Metadata_Failed p e))"

text \<open>\<open>UNIX_EPOCH.checked_add(Duration::from_secs(secs))\<close> on a platform with 64-bit seconds.\<close>

definition checked_add_secs :: "nat \<Rightarrow> nat option" where
  "checked_add_secs secs = (if int secs \<le> i64_max then Some secs else None)"

subsection \<open>Reading and parsing the lists\<close>

text \<open>\<open>String::from_utf8\<close>: the table of well-formed byte sequences of Unicode.\<close>

definition utf8_tail :: "u8 \<Rightarrow> bool" where
  "utf8_tail b \<longleftrightarrow> 0x80 \<le> b \<and> b \<le> 0xBF"

fun valid_utf8 :: "bytes \<Rightarrow> bool" where
  "valid_utf8 [] \<longleftrightarrow> True"
| "valid_utf8 (a # r) \<longleftrightarrow>
     (if a \<le> 0x7F then valid_utf8 r
      else if 0xC2 \<le> a \<and> a \<le> 0xDF then
        (case r of b # r' \<Rightarrow> utf8_tail b \<and> valid_utf8 r' | _ \<Rightarrow> False)
      else if 0xE0 \<le> a \<and> a \<le> 0xEF then
        (case r of
           b # c # r' \<Rightarrow>
             utf8_tail b \<and> utf8_tail c \<and> (a = 0xE0 \<longrightarrow> 0xA0 \<le> b) \<and> (a = 0xED \<longrightarrow> b \<le> 0x9F) \<and>
             valid_utf8 r'
         | _ \<Rightarrow> False)
      else if 0xF0 \<le> a \<and> a \<le> 0xF4 then
        (case r of
           b # c # d # r' \<Rightarrow>
             utf8_tail b \<and> utf8_tail c \<and> utf8_tail d \<and> (a = 0xF0 \<longrightarrow> 0x90 \<le> b) \<and>
             (a = 0xF4 \<longrightarrow> b \<le> 0x8F) \<and> valid_utf8 r'
         | _ \<Rightarrow> False)
      else False)"

definition str_of_bytes :: "bytes \<Rightarrow> string" where
  "str_of_bytes bs = map (\<lambda>b. char_of (unat b)) bs"

definition read_to_string :: "io_error + bytes \<Rightarrow> io_error + string" where
  "read_to_string r =
     (case r of
        Inl e \<Rightarrow> Inl e
      | Inr bs \<Rightarrow>
          if valid_utf8 bs then Inr (str_of_bytes bs)
          else Inl (IoOther ''stream did not contain valid UTF-8''))"

datatype list_error = Name_Not_Valid | Cannot_Read io_error | Malformed parse_error

record updater =
  repo :: git_repository
  ignore_country :: bool

definition parse_file ::
  "'net ipnet_api \<Rightarrow> 'dt chrono_api \<Rightarrow> ('w, 'repo, 'remote, 'oid, 'commit) git_api \<Rightarrow> updater \<Rightarrow> 'w
    \<Rightarrow> path \<Rightarrow> list_error + 'net ipset" where
  "parse_file N C A u w relative =
     (let p = repo_path (repo u) @ relative
      in case path_file_name relative of
          None \<Rightarrow> Err Name_Not_Valid
        | Some name \<Rightarrow>
            (case read_to_string (read_file A w p) of
               Inl e \<Rightarrow> Err (Cannot_Read e)
             | Inr content \<Rightarrow> map_err Malformed (parse N C name content)))"

definition parse_files ::
  "'net ipnet_api \<Rightarrow> 'dt chrono_api \<Rightarrow> ('w, 'repo, 'remote, 'oid, 'commit) git_api \<Rightarrow> updater \<Rightarrow> 'w
    \<Rightarrow> path list \<Rightarrow> 'net ipset list" where
  "parse_files N C A u w files = filter_map (\<lambda>relative. ok_of (parse_file N C A u w relative)) files"

subsection \<open>One run of the updater\<close>

text \<open>\<open>Mutex::try_lock\<close>; a poisoned lock is taken all the same.\<close>

datatype try_lock = Acquired | Would_Block | Poisoned

datatype ('net, 'oid) update_error =
    Git_Error "'oid git_failure"
  | Stat_Error stat_failure
  | Commit_Tree_Failed string
  | Collect_Error collect_error
  | No_Entries path
  | Negative_Timestamp int
  | Timestamp_Out_Of_Range int
  | Build_Error "'net build_error"

definition update_and_build_mmdb ::
  "'net ipnet_api \<Rightarrow> 'dt chrono_api \<Rightarrow> ('wr, 'net) writer_api
    \<Rightarrow> ('w, 'repo, 'remote, 'oid, 'commit) git_api \<Rightarrow> updater \<Rightarrow> try_lock \<Rightarrow> (path \<Rightarrow> stat_result)
    \<Rightarrow> faults \<Rightarrow> system_time \<Rightarrow> path \<Rightarrow> 'w
    \<Rightarrow> (('net, 'oid) update_error + bool) \<times> 'w \<times> fs_op list" where
  "update_and_build_mmdb N C W A u lock stat flt now mmdb_path w =
     (if lock = Would_Block then (Ok False, w, [])
      else case open_or_clone A (repo u) w of
        (Inl e, w1) \<Rightarrow> (Err (Git_Error e), w1, [])
      | (Inr rep, w1) \<Rightarrow>
      (case remote_tip A (repo u) rep w1 of
        Inl e \<Rightarrow> (Err (Git_Error e), w1, [])
      | Inr tip \<Rightarrow>
      (let commit_epoch = commit_seconds A tip in
       case modified_epoch stat mmdb_path of
        Inl e \<Rightarrow> (Err (Stat_Error e), w1, [])
      | Inr mmdb_epoch \<Rightarrow>
      (if commit_epoch \<le> mmdb_epoch then (Ok False, w1, [])
       else case checkout A (repo u) rep tip w1 of
        (Inl e, w2) \<Rightarrow> (Err (Git_Error e), w2, [])
      | (Inr _, w2) \<Rightarrow>
      (case commit_tree A tip of
        Inl e \<Rightarrow> (Err (Commit_Tree_Failed e), w2, [])
      | Inr tree \<Rightarrow>
      (case collect_ipset_files (ignore_country u) tree of
        Inl e \<Rightarrow> (Err (Collect_Error e), w2, [])
      | Inr files \<Rightarrow>
      (let ipsets = parse_files N C A u w2 files;
           count = sum_list (map network_count ipsets)
       in if count = 0 then (Err (No_Entries (repo_path (repo u))), w2, [])
       else if commit_epoch < 0 then (Err (Negative_Timestamp commit_epoch), w2, [])
       else case checked_add_secs (nat commit_epoch) of
        None \<Rightarrow> (Err (Timestamp_Out_Of_Range commit_epoch), w2, [])
      | Some epoch \<Rightarrow>
      (case write_mmdb W flt now ipsets epoch mmdb_path of
        (Inl e, ops) \<Rightarrow> (Err (Build_Error e), w2, ops)
      | (Inr bytes_len, ops) \<Rightarrow> (Ok True, w2, ops)))))))))"

subsection \<open>Facts\<close>

lemma system_time_to_epoch_bounds: "0 \<le> system_time_to_epoch t" "system_time_to_epoch t \<le> i64_max"
  by (auto simp: system_time_to_epoch_def Let_def pos_imp_zdiv_nonneg_iff
      intro: order_less_imp_le [OF i64_bounds(1)])

lemma modified_epoch_nonneg: "modified_epoch stat p = Inr m \<Longrightarrow> 0 \<le> m"
  by (auto simp: modified_epoch_def system_time_to_epoch_bounds split: sum.splits io_error.splits)

lemma modified_epoch_file:
  "fs p = Some f \<Longrightarrow> modified_epoch (stat_of fs) p = Inr (system_time_to_epoch (file_mtime f))"
  by (simp add: modified_epoch_def stat_of_def)

lemma system_time_to_epoch_ge:
  assumes "s * 10 ^ 9 \<le> t" "s \<le> i64_max"
  shows "s \<le> system_time_to_epoch t"
proof (cases "t < 0")
  case True
  with assms show ?thesis by (simp add: system_time_to_epoch_def)
next
  case False
  have "s \<le> t div 10 ^ 9" using zdiv_mono1 [OF assms(1), of "10 ^ 9"] by simp
  with False assms(2) show ?thesis by (simp add: system_time_to_epoch_def Let_def)
qed

text \<open>Inversion of the outcomes.\<close>

lemma update_True_cases:
  assumes "update_and_build_mmdb N C W A u lock stat flt now p w = (Inr True, w', ops)"
  obtains rep w1 tip m tree files n where
    "lock \<noteq> Would_Block" "open_or_clone A (repo u) w = (Inr rep, w1)"
    "remote_tip A (repo u) rep w1 = Inr tip" "modified_epoch stat p = Inr m"
    "m < commit_seconds A tip" "commit_seconds A tip \<le> i64_max"
    "checkout A (repo u) rep tip w1 = (Inr (), w')" "commit_tree A tip = Inr tree"
    "collect_ipset_files (ignore_country u) tree = Inr files"
    "\<exists>i\<in>set (parse_files N C A u w' files). 0 < network_count i"
    "write_mmdb W flt now (parse_files N C A u w' files) (nat (commit_seconds A tip)) p = (Inr n, ops)"
  using assms
  by (simp add: update_and_build_mmdb_def Let_def checked_add_secs_def
      split: if_splits prod.splits sum.splits option.splits)

lemma update_not_True:
  assumes "update_and_build_mmdb N C W A u lock stat flt now p w = (r, w', ops)" "r \<noteq> Inr True"
  shows "ops = [] \<or> (\<exists>e ipsets epoch. write_mmdb W flt now ipsets epoch p = (Inl e, ops))"
  using assms
  by (auto simp: update_and_build_mmdb_def Let_def split: if_splits prod.splits sum.splits option.splits)

lemma update_writes:
  assumes "update_and_build_mmdb N C W A u lock stat flt now p w = (r, w', ops)"
  shows "ops = [] \<or> (\<exists>r' ipsets epoch. write_mmdb W flt now ipsets epoch p = (r', ops))"
proof (cases "r = Inr True")
  case True
  with assms show ?thesis by (blast elim: update_True_cases)
next
  case False
  from update_not_True [OF assms this] show ?thesis by blast
qed

lemma write_mmdb_Ok_file:
  fixes W :: "('w, 'net) writer_api"
  assumes "write_mmdb W flt now ipsets epoch output = (Inr n, ops)"
  shows "\<exists>bs. serialise W epoch ipsets = Ok bs \<and>
    run_ops fs ops output = Some \<lparr>file_content = bs, file_mtime = now\<rparr>"
proof (cases "serialise W epoch ipsets")
  case (Inr bs)
  obtain r' :: "'net build_error + unit" where
    r': "replace_file flt now (with_extension output ''tmp'') bs output = (r', ops)"
    and "Inr n = (case r' of Inl e \<Rightarrow> Inl e | Inr _ \<Rightarrow> Inr (length bs))"
    using write_mmdb_replace [OF Inr assms] .
  then obtain y where "r' = Inr y" by (cases r') auto
  from replace_file_Ok(1) [OF r' [unfolded this]] Inr show ?thesis by blast
qed (use assms in \<open>simp add: write_mmdb_def\<close>)

section \<open>Properties\<close>

definition sample_updater :: updater where
  "sample_updater =
     \<lparr>repo = \<lparr>repo_path = [''clone''], repo_url = ''lists.git'', repo_branch = ''master''\<rparr>,
      ignore_country = True\<rparr>"

definition sample_run where
  "sample_run lock stat w = update_and_build_mmdb ref_ipnet ref_chrono ref_writer
     (ref_git sample_upstream) sample_updater lock stat no_faults (9 * 10 ^ 9) [''db'', ''f.mmdb''] w"

lemma sample_run_True: "fst (sample_run Acquired (stat_of (\<lambda>_. None)) None) = Ok True"
  by code_simp

lemma sample_run_Ok:
  obtains w' ops where
    "sample_run Acquired (stat_of (\<lambda>_. None)) None = (Ok True, w', ops)"
    "update_and_build_mmdb ref_ipnet ref_chrono ref_writer (ref_git sample_upstream) sample_updater
       Acquired (stat_of (\<lambda>_. None)) no_faults (9 * 10 ^ 9) [''db'', ''f.mmdb''] None =
     (Ok True, w', ops)"
  using sample_run_True unfolding sample_run_def by (metis prod.collapse)

lemma sample_output: "with_extension [''db'', ''f.mmdb''] ''tmp'' \<noteq> [''db'', ''f.mmdb'']"
  by code_simp

lemma sample_second_run:
  "(case sample_run Acquired (stat_of (\<lambda>_. None)) None of (_, w', _) \<Rightarrow>
      case open_or_clone (ref_git sample_upstream) (repo sample_updater) w' of
        (Inl _, _) \<Rightarrow> False
      | (Inr rep, w1) \<Rightarrow>
          (case remote_tip (ref_git sample_upstream) (repo sample_updater) rep w1 of
             Inl _ \<Rightarrow> False | Inr tip \<Rightarrow> rg_time tip = 7))"
  by code_simp

text \<open>
  C17. When a run is skipped: exactly when another run holds the lock, or the tip's commit time is
  not after the database file's modification time (0 for a missing file); a skipped run does not
  touch the file system.
\<close>

theorem update_skipped_iff:
  "fst (update_and_build_mmdb N C W A u lock stat flt now p w) = Ok False \<longleftrightarrow>
     lock = Would_Block \<or>
     (\<exists>rep w1 tip m. open_or_clone A (repo u) w = (Ok rep, w1) \<and>
        remote_tip A (repo u) rep w1 = Ok tip \<and> modified_epoch stat p = Ok m \<and>
        commit_seconds A tip \<le> m)"
  by (auto simp: update_and_build_mmdb_def Let_def split: prod.splits sum.splits option.splits)

text \<open>
  C12. What a rebuilding run leaves behind: the database file is the complete serialisation of the
  lists selected from the tip's tree, parsed in their order from the checked-out files with the
  unreadable and malformed ones left out, with at least one network among them, stamped with the
  commit's time; the commit is newer than the file was.
\<close>

theorem update_rebuilds:
  assumes "update_and_build_mmdb N C W A u lock stat flt now p w = (Ok True, w', ops)"
  shows "\<exists>rep w1 tip tree m bs.
    open_or_clone A (repo u) w = (Ok rep, w1) \<and> remote_tip A (repo u) rep w1 = Ok tip \<and>
    checkout A (repo u) rep tip w1 = (Ok (), w') \<and> commit_tree A tip = Ok tree \<and>
    modified_epoch stat p = Ok m \<and> m < commit_seconds A tip \<and>
    (let ipsets = parse_files N C A u w' (selected_paths (ignore_country u) (tree_blobs tree))
     in (\<exists>i\<in>set ipsets. 0 < network_count i) \<and>
        serialise W (nat (commit_seconds A tip)) ipsets = Ok bs \<and>
        run_ops fs ops p = Some \<lparr>file_content = bs, file_mtime = now\<rparr>)"
proof -
  from assms obtain rep w1 tip m tree files n where run:
    "open_or_clone A (repo u) w = (Inr rep, w1)" "remote_tip A (repo u) rep w1 = Inr tip"
    "modified_epoch stat p = Inr m" "m < commit_seconds A tip"
    "checkout A (repo u) rep tip w1 = (Inr (), w')" "commit_tree A tip = Inr tree"
    "collect_ipset_files (ignore_country u) tree = Inr files"
    "\<exists>i\<in>set (parse_files N C A u w' files). 0 < network_count i"
    "write_mmdb W flt now (parse_files N C A u w' files) (nat (commit_seconds A tip)) p = (Inr n, ops)"
    by (blast elim: update_True_cases)
  have files: "files = selected_paths (ignore_country u) (tree_blobs tree)"
    using collected_selected [OF run(7)] by simp
  from write_mmdb_Ok_file [OF run(9), of fs] obtain bs where bs:
    "serialise W (nat (commit_seconds A tip)) (parse_files N C A u w' files) = Ok bs"
    "run_ops fs ops p = Some \<lparr>file_content = bs, file_mtime = now\<rparr>"
    by blast
  from run bs show ?thesis unfolding files Let_def by blast
qed

theorem update_rebuilds_witness:
  "\<exists>w' ops bs. sample_run Acquired (stat_of (\<lambda>_. None)) None = (Ok True, w', ops) \<and>
     run_ops (\<lambda>_. None) ops [''db'', ''f.mmdb''] = Some \<lparr>file_content = bs, file_mtime = 9 * 10 ^ 9\<rparr>"
proof -
  obtain w' ops where run: "sample_run Acquired (stat_of (\<lambda>_. None)) None = (Ok True, w', ops)"
    "update_and_build_mmdb ref_ipnet ref_chrono ref_writer (ref_git sample_upstream) sample_updater
       Acquired (stat_of (\<lambda>_. None)) no_faults (9 * 10 ^ 9) [''db'', ''f.mmdb''] None =
     (Ok True, w', ops)"
    by (rule sample_run_Ok)
  from update_rebuilds [OF run(2), of "\<lambda>_. None"] run(1) show ?thesis by (auto simp: Let_def)
qed



text \<open>
  The two errors about the commit's time are unreachable: the modification time is never
  negative, so a commit newer than it is not before 1970, and every \<open>i64\<close> of seconds is in range.
\<close>

theorem update_timestamp_errors_unreachable:
  assumes "\<And>c. commit_seconds A c \<le> i64_max"
  shows "fst (update_and_build_mmdb N C W A u lock stat flt now p w) \<noteq> Err (Negative_Timestamp s) \<and>
    fst (update_and_build_mmdb N C W A u lock stat flt now p w) \<noteq> Err (Timestamp_Out_Of_Range s)"
  using assms modified_epoch_nonneg [of stat p]
  by (auto simp: update_and_build_mmdb_def Let_def checked_add_secs_def not_le
      split: prod.splits sum.splits option.splits)

theorem update_timestamp_errors_unreachable_witness:
  "fst (update_and_build_mmdb ref_ipnet ref_chrono ref_writer
      ((ref_git sample_upstream)\<lparr>commit_seconds := \<lambda>c. min (rg_time c) i64_max\<rparr>) sample_updater
      Acquired (stat_of (\<lambda>_. None)) no_faults 9 [''db'', ''f.mmdb''] None) \<noteq> Err (Negative_Timestamp (- 1))"
  using update_timestamp_errors_unreachable
    [of "(ref_git sample_upstream)\<lparr>commit_seconds := \<lambda>c. min (rg_time c) i64_max\<rparr>" ref_ipnet ref_chrono
      ref_writer sample_updater Acquired "stat_of (\<lambda>_. None)" no_faults 9 "[''db'', ''f.mmdb'']" None "- 1"]
  by simp

text \<open>
  C16. Updates are idempotent: after a rebuild, as long as the tip is not newer than the moment of
  the rebuild, the next run finds the database up to date and writes nothing.
\<close>

theorem update_idempotent:
  assumes "update_and_build_mmdb N C W A u lock (stat_of fs) flt now p w = (Ok True, w', ops)"
    and "open_or_clone A (repo u) w' = (Ok rep, w1)" "remote_tip A (repo u) rep w1 = Ok tip"
    and "commit_seconds A tip * 10 ^ 9 \<le> now" "commit_seconds A tip \<le> i64_max"
  shows "update_and_build_mmdb N C W A u Acquired (stat_of (run_ops fs ops)) flt' now' p w' =
    (Ok False, w1, [])"
proof -
  from assms(1) obtain ipsets epoch n where
    "write_mmdb W flt now ipsets epoch p = (Inr n, ops)" by (blast elim: update_True_cases)
  from write_mmdb_Ok_file [OF this, of fs] obtain bs where
    "run_ops fs ops p = Some \<lparr>file_content = bs, file_mtime = now\<rparr>" by blast
  from modified_epoch_file [of "run_ops fs ops" p, OF this] system_time_to_epoch_ge [OF assms(4,5)] assms(2,3)
  show ?thesis by (simp add: update_and_build_mmdb_def)
qed

theorem update_idempotent_witness:
  "\<exists>w' ops w1. sample_run Acquired (stat_of (\<lambda>_. None)) None = (Ok True, w', ops) \<and>
     sample_run Acquired (stat_of (run_ops (\<lambda>_. None) ops)) w' = (Ok False, w1, [])"
proof -
  obtain w' ops where run: "sample_run Acquired (stat_of (\<lambda>_. None)) None = (Ok True, w', ops)"
    "update_and_build_mmdb ref_ipnet ref_chrono ref_writer (ref_git sample_upstream) sample_updater
       Acquired (stat_of (\<lambda>_. None)) no_faults (9 * 10 ^ 9) [''db'', ''f.mmdb''] None =
     (Ok True, w', ops)"
    by (rule sample_run_Ok)
  from sample_second_run run(1) obtain rep w1 tip where second:
    "open_or_clone (ref_git sample_upstream) (repo sample_updater) w' = (Ok rep, w1)"
    "remote_tip (ref_git sample_upstream) (repo sample_updater) rep w1 = Ok tip" "rg_time tip = 7"
    by (auto split: prod.splits sum.splits)
  have time: "commit_seconds (ref_git sample_upstream) tip = 7"
    using second(3) by (simp add: ref_git_def)
  from update_idempotent [OF run(2) second(1,2)] time run(1) show ?thesis
    by (auto simp: sample_run_def i64_max_def)
qed

end
