(* ===== verification/Agent.thy ===== *)
theory Agent
  imports Cli Mmdb_Watcher Spoa Firehol
begin

text \<open>
  \<open>src/main.rs\<close>: one update with the reload that follows it (\<open>run_update\<close>), and the life of
  the process (\<open>run\<close>): start-up in its order with every early return, serving until something
  stops it, and the orderly end. What the runtime, the scheduler and the sockets answer is the
  record \<open>platform\<close>; the crates the model takes as parameters are bundled in \<open>crates\<close>.
\<close>

record ('net, 'dt, 'wr, 'w, 'repo, 'remote, 'oid, 'commit, 'rd) crates =
  ipnet :: "'net ipnet_api"
  chrono :: "'dt chrono_api"
  writer :: "('wr, 'net) writer_api"
  git2 :: "('w, 'repo, 'remote, 'oid, 'commit) git_api"
  geoip :: "'rd geoip_api"

subsection \<open>One update\<close>

datatype ('net, 'oid) run_update_error =
    Update_Failed "('net, 'oid) update_error"
  | Rebuilt_Load_Failed mmdb_error

text \<open>What happens around a run: the lock, the file's metadata, faults, the clock, the views of the reload.\<close>

record moment =
  at_lock :: try_lock
  at_stat :: "path \<Rightarrow> stat_result"
  at_faults :: faults
  at_time :: system_time
  at_reload :: "os_view \<times> os_view"

definition run_update ::
  "('net, 'dt, 'wr, 'w, 'repo, 'remote, 'oid, 'commit, 'rd) crates \<Rightarrow> updater \<Rightarrow> moment \<Rightarrow> path
    \<Rightarrow> 'w \<Rightarrow> 'rd mmdb
    \<Rightarrow> (('net, 'oid) run_update_error + unit) \<times> 'w \<times> fs_op list \<times> 'rd mmdb \<times> metric_event list" where
  "run_update K u mo p w st =
     (case update_and_build_mmdb (ipnet K) (chrono K) (writer K) (git2 K) u (at_lock mo) (at_stat mo)
             (at_faults mo) (at_time mo) p w of
        (Inl e, w', ops) \<Rightarrow> (Err (Update_Failed e), w', ops, st, [])
      | (Inr False, w', ops) \<Rightarrow> (Ok (), w', ops, st, [])
      | (Inr True, w', ops) \<Rightarrow>
          (case reload_if_changed (geoip K) (fst (at_reload mo)) (snd (at_reload mo)) p st of
             (Inl e, st', evs) \<Rightarrow> (Err (Rebuilt_Load_Failed e), w', ops, st', evs)
           | (Inr _, st', evs) \<Rightarrow> (Ok (), w', ops, st', evs)))"

subsection \<open>The process\<close>

datatype signal_name = SIGTERM | SIGQUIT | SIGINT

text \<open>Which branch of the final \<open>select!\<close> completes first, with its result.\<close>

datatype stop_cause =
    Spoa_Stopped "string + unit"
  | Metrics_Stopped "string + string + unit" \<comment> \<open>the task's join error, or the server's result\<close>
  | Signal_Received "string + signal_name"

record platform =
  absolute :: "path \<Rightarrow> string + path"
  is_file :: "path \<Rightarrow> bool"
  load_views :: "os_view \<times> os_view"
  watcher :: watch_api
  bind_metrics :: "string \<Rightarrow> string + unit"
  first_update :: moment
  scheduler_new :: "string + unit"
  job_new :: "string \<Rightarrow> string + unit"
  scheduler_add :: "string + unit"
  scheduler_start :: "string + unit"
  stopped_by :: stop_cause

datatype ('net, 'oid) run_error =
    Metrics_Panic
  | Invalid_Mmdb_Path path
  | Initial_Load mmdb_error
  | Watch_Start start_error
  | Metrics_Bind_Failed string string
  | Initial_Update "('net, 'oid) run_update_error"
  | Scheduler_New_Failed string
  | Invalid_Cron string string
  | Scheduler_Add_Failed string
  | Scheduler_Start_Failed string
  | Spoa_Failed string
  | Metrics_Server_Stopped string
  | Metrics_Task_Failed string
  | Signal_Setup_Failed string

text \<open>What the process does to the outside, in order.\<close>

datatype action =
    Load_Database path
  | Watch_Directory path string
  | Listen_Metrics string
  | Run_Update
  | Schedule_Update string
  | Serve_Spoe string
  | Stop_Scheduler
  | Stop_Watcher

definition cli_updater :: "cli \<Rightarrow> updater" where
  "cli_updater c =
     \<lparr>repo = \<lparr>repo_path = firehol_repo_path c, repo_url = firehol_repo_url c,
        repo_branch = firehol_repo_branch c\<rparr>, ignore_country = firehol_ignore_country c\<rparr>"

definition cli_filter :: "cli \<Rightarrow> ip_filter" where
  "cli_filter c = new_filter (set (drop_by_category c)) (set (drop_by_file_names c))"

text \<open>The part of \<open>run\<close> before the update: the store, the watcher and the metrics endpoint.\<close>

definition prepare ::
  "'rd geoip_api \<Rightarrow> platform \<Rightarrow> cli
    \<Rightarrow> (('net, 'oid) run_error + path) \<times> action list \<times> 'rd mmdb \<times> metric_event list" where
  "prepare G pf c =
     (if metrics_init [] = None then (Err Metrics_Panic, [], mmdb_new, [])
      else case absolute pf (mmdb_path c) of
        Inl _ \<Rightarrow> (Err (Invalid_Mmdb_Path (mmdb_path c)), [], mmdb_new, [])
      | Inr p \<Rightarrow>
      (case (if is_file pf p then load G (fst (load_views pf)) (snd (load_views pf)) p mmdb_new
             else (Ok (), mmdb_new, [])) of
        (Inl e, st, evs) \<Rightarrow> (Err (Initial_Load e), [Load_Database p], st, evs)
      | (Inr _, st, evs) \<Rightarrow>
      (let acts = (if is_file pf p then [Load_Database p] else [])
       in case watcher_start (watcher pf) p of
        Inl e \<Rightarrow> (Err (Watch_Start e), acts, st, evs)
      | Inr (dir, name) \<Rightarrow>
      (case bind_metrics pf (spoa_listen_adress_metrics_prometheus c) of
        Inl e \<Rightarrow> (Err (Metrics_Bind_Failed (spoa_listen_adress_metrics_prometheus c) e),
                  acts @ [Watch_Directory dir name], st, evs)
      | Inr _ \<Rightarrow>
          (Ok p, acts @ [Watch_Directory dir name, Listen_Metrics (spoa_listen_adress_metrics_prometheus c)],
           st, evs)))))"

text \<open>The scheduler: created, given the job, started.\<close>

definition schedule :: "platform \<Rightarrow> cli \<Rightarrow> ('net, 'oid) run_error + unit" where
  "schedule pf c =
     (case scheduler_new pf of
        Inl e \<Rightarrow> Err (Scheduler_New_Failed e)
      | Inr _ \<Rightarrow>
          (case job_new pf (firehol_update_cron_job c) of
             Inl e \<Rightarrow> Err (Invalid_Cron (firehol_update_cron_job c) e)
           | Inr _ \<Rightarrow>
               (case scheduler_add pf of
                  Inl e \<Rightarrow> Err (Scheduler_Add_Failed e)
                | Inr _ \<Rightarrow> map_err Scheduler_Start_Failed (scheduler_start pf))))"

fun stop_outcome :: "stop_cause \<Rightarrow> ('net, 'oid) run_error + unit" where
  "stop_outcome (Spoa_Stopped r) = map_err Spoa_Failed r"
| "stop_outcome (Metrics_Stopped (Inr (Inr _))) = Ok ()"
| "stop_outcome (Metrics_Stopped (Inr (Inl e))) = Err (Metrics_Server_Stopped e)"
| "stop_outcome (Metrics_Stopped (Inl e)) = Err (Metrics_Task_Failed e)"
| "stop_outcome (Signal_Received (Inr _)) = Ok ()"
| "stop_outcome (Signal_Received (Inl e)) = Err (Signal_Setup_Failed e)"

record ('w, 'rd) process =
  pr_world :: 'w
  pr_ops :: "fs_op list"
  pr_store :: "'rd mmdb"
  pr_events :: "metric_event list"
  pr_actions :: "action list"

definition run ::
  "('net, 'dt, 'wr, 'w, 'repo, 'remote, 'oid, 'commit, 'rd) crates \<Rightarrow> platform \<Rightarrow> cli \<Rightarrow> 'w
    \<Rightarrow> (('net, 'oid) run_error + unit) \<times> ('w, 'rd) process" where
  "run K pf c w =
     (case prepare (geoip K) pf c of
        (Inl e, acts, st, evs) \<Rightarrow>
          (Err e, \<lparr>pr_world = w, pr_ops = [], pr_store = st, pr_events = evs, pr_actions = acts\<rparr>)
      | (Inr p, acts, st, evs) \<Rightarrow>
          (case run_update K (cli_updater c) (first_update pf) p w st of
             (r, w', ops, st', evs') \<Rightarrow>
               (let pr = \<lparr>pr_world = w', pr_ops = ops, pr_store = st', pr_events = evs @ evs',
                           pr_actions = acts @ [Run_Update]\<rparr>
                in case r of
                  Inl e \<Rightarrow> (Err (Initial_Update e), pr)
                | Inr _ \<Rightarrow>
                    (case schedule pf c of
                       Inl e \<Rightarrow> (Err e, pr)
                     | Inr _ \<Rightarrow>
                         (stop_outcome (stopped_by pf),
                          pr\<lparr>pr_actions := acts @ [Run_Update, Schedule_Update (firehol_update_cron_job c),
                               Serve_Spoe (spoa_listen_adress c), Stop_Scheduler, Stop_Watcher]\<rparr>)))))"

text \<open>\<open>main\<close>: nothing happens unless the runtime starts; \<open>run\<close>'s result is the program's.\<close>

datatype ('net, 'oid) main_error = Runtime_Failed string | Run_Failed "('net, 'oid) run_error"

definition program ::
  "('net, 'dt, 'wr, 'w, 'repo, 'remote, 'oid, 'commit, 'rd) crates \<Rightarrow> string + unit \<Rightarrow> platform \<Rightarrow> cli \<Rightarrow> 'w
    \<Rightarrow> (('net, 'oid) main_error + unit) \<times> ('w, 'rd) process option" where
  "program K runtime pf c w =
     (case runtime of
        Inl e \<Rightarrow> (Err (Runtime_Failed e), None)
      | Inr _ \<Rightarrow> (case run K pf c w of (result, pr) \<Rightarrow> (map_err Run_Failed result, Some pr)))"

text \<open>The cron job: the same update, whose error is only logged.\<close>

definition scheduled_update ::
  "('net, 'dt, 'wr, 'w, 'repo, 'remote, 'oid, 'commit, 'rd) crates \<Rightarrow> updater \<Rightarrow> moment \<Rightarrow> path
    \<Rightarrow> 'w \<Rightarrow> 'rd mmdb
    \<Rightarrow> ('net, 'oid) run_update_error option \<times> 'w \<times> fs_op list \<times> 'rd mmdb \<times> metric_event list" where
  "scheduled_update K u mo p w st =
     (case run_update K u mo p w st of
        (Inl e, rest) \<Rightarrow> (Some e, rest)
      | (Inr _, rest) \<Rightarrow> (None, rest))"

subsection \<open>Facts\<close>

text \<open>A verdict depends on the listed columns only.\<close>

lemma should_drop_rows:
  assumes "find_entry G st (V4 a) = (if rs = [] then None else Some (entry_of_rows rs))"
  shows "fst (should_drop G flt st (V4 a)) \<longleftrightarrow>
    (\<exists>(name, m)\<in>set rs. category m \<in> drop_categories flt \<or> name \<in> drop_file_names flt)"
proof -
  have "find_match flt (entry_of_rows rs) \<noteq> None \<longleftrightarrow>
      (\<exists>(name, m)\<in>set rs. category m \<in> drop_categories flt \<or> name \<in> drop_file_names flt)"
    by (simp add: find_match_None_iff entry_of_rows_def) force
  with assms show ?thesis by (auto simp: should_drop_iff)
qed

text \<open>A loaded database answers as its lists say.\<close>

lemma serialised_find_entry:
  assumes F: "mmdb_format W covers content G" and s: "serialise W epoch ipsets = Ok bs"
    and st: "snapshot st = Some sn" "g_from_bytes G bs = Inr (reader sn)"
  shows "find_entry G st (V4 a) =
      (if rows covers a ipsets = [] then None else Some (entry_of_rows (rows covers a ipsets)))"
    and "find_entry G st (V6 b) = None"
  using serialise_lookup [OF F s] st(2)
  by (auto simp: find_entry_snapshot [OF st(1)] query_db_def)

text \<open>The list a blob of the tree gives rise to, if any.\<close>

definition parse_blob ::
  "'net ipnet_api \<Rightarrow> 'dt chrono_api \<Rightarrow> path \<Rightarrow> bytes \<Rightarrow> 'net ipset option" where
  "parse_blob N C rel bs =
     (if valid_utf8 bs then ok_of (parse N C (last rel) (str_of_bytes bs)) else None)"

text \<open>
  What the lists of a tree say about an address: some selected list file names, on a line below a
  header with a dropped category or in a file with a dropped name, a network that covers it.
\<close>

definition blocked_by ::
  "'net ipnet_api \<Rightarrow> 'dt chrono_api \<Rightarrow> ('net \<Rightarrow> ipv4 \<Rightarrow> bool) \<Rightarrow> ip_filter \<Rightarrow> bool \<Rightarrow> git_tree
    \<Rightarrow> ipv4 \<Rightarrow> bool" where
  "blocked_by N C covers flt ic tree a \<longleftrightarrow>
     (\<exists>(rel, bs)\<in>set (tree_blobs tree). selected ic rel \<and>
        (case parse_blob N C rel bs of
           None \<Rightarrow> False
         | Some ips \<Rightarrow>
             (\<exists>(m, n)\<in>set (tagged (sections ips)). covers n a \<and>
                (category m \<in> drop_categories flt \<or> last rel \<in> drop_file_names flt))))"

text \<open>The verdict on any address: the lists hold IPv4 networks only.\<close>

definition listed ::
  "'net ipnet_api \<Rightarrow> 'dt chrono_api \<Rightarrow> ('net \<Rightarrow> ipv4 \<Rightarrow> bool) \<Rightarrow> ip_filter \<Rightarrow> bool \<Rightarrow> git_tree \<Rightarrow> ip_addr
    \<Rightarrow> bool" where
  "listed N C covers flt ic tree ip =
     (case ip of V4 a \<Rightarrow> blocked_by N C covers flt ic tree a | V6 _ \<Rightarrow> False)"

lemma set_tagged:
  "set (tagged secs) = {(section_metadata s, n) | s n. s \<in> set secs \<and> n \<in> set (networks s)}"
  by (auto simp: tagged_def)

lemma parse_file_name: "parse N C name content = Ok ips \<Longrightarrow> file_name ips = name"
  by (auto simp: parse_def split: sum.splits)

lemma selected_file_name:
  assumes "selected ic rel" "rel \<noteq> []"
  shows "path_file_name rel = Some (last rel)"
proof -
  have "last rel \<noteq> ''..''"
    using assms(1) by (auto simp: selected_def is_ipset_file_def ends_with_iff)
  with assms(2) show ?thesis by (simp add: path_file_name_def)
qed

lemma parse_file_blob:
  assumes "(rel, bs) \<in> set (tree_blobs tree)" "selected ic rel"
    and "read_file A w (repo_path (repo u) @ rel) = Inr bs"
  shows "ok_of (parse_file N C A u w rel) = parse_blob N C rel bs"
proof -
  from blobs_nonempty(1) [OF assms(1)] have "path_file_name rel = Some (last rel)"
    by (rule selected_file_name [OF assms(2)])
  then show ?thesis
    by (cases "parse N C (last rel) (str_of_bytes bs)")
       (simp_all add: parse_file_def parse_blob_def read_to_string_def assms(3))
qed

lemma set_parse_files:
  assumes "\<forall>(rel, bs)\<in>set (tree_blobs tree). read_file A w (repo_path (repo u) @ rel) = Inr bs"
  shows "set (parse_files N C A u w (selected_paths ic (tree_blobs tree))) =
    {ips. \<exists>(rel, bs)\<in>set (tree_blobs tree). selected ic rel \<and> parse_blob N C rel bs = Some ips}"
proof -
  have "ok_of (parse_file N C A u w rel) = parse_blob N C rel bs"
    if "(rel, bs) \<in> set (tree_blobs tree)" "selected ic rel" for rel bs
  proof -
    from assms that(1) have "read_file A w (repo_path (repo u) @ rel) = Inr bs" by blast
    from parse_file_blob [OF that this] show ?thesis .
  qed
  then show ?thesis
    unfolding parse_files_def set_filter_map selected_paths_def by force
qed

lemma blocked_by_rows:
  assumes "set ipsets =
    {ips. \<exists>(rel, bs)\<in>set (tree_blobs tree). selected ic rel \<and> parse_blob N C rel bs = Some ips}"
  shows "(\<exists>(name, m)\<in>set (rows covers a ipsets).
      category m \<in> drop_categories flt \<or> name \<in> drop_file_names flt) \<longleftrightarrow>
    blocked_by N C covers flt ic tree a"
proof -
  have name: "file_name ips = last rel" if "parse_blob N C rel bs = Some ips" for rel bs ips
    using that by (auto simp: parse_blob_def split: if_splits)
       (metis ok_of.elims option.distinct(1) option.inject parse_file_name)
  have "blocked_by N C covers flt ic tree a \<longleftrightarrow>
      (\<exists>ips\<in>set ipsets. \<exists>(m, n)\<in>set (tagged (sections ips)). covers n a \<and>
        (category m \<in> drop_categories flt \<or> file_name ips \<in> drop_file_names flt))"
    unfolding assms blocked_by_def by (force simp: name split: option.splits)
  also have "\<dots> \<longleftrightarrow> (\<exists>(name, m)\<in>set (rows covers a ipsets).
      category m \<in> drop_categories flt \<or> name \<in> drop_file_names flt)"
    unfolding set_rows set_tagged by blast
  finally show ?thesis by blast
qed

lemma load_Ok_snapshot: "load G vw1 vw2 p st = (Inr u, st', evs) \<Longrightarrow> snapshot st' \<noteq> None"
  by (auto simp: load_def load_locked_Ok_iff)

lemma reload_Ok_snapshot:
  "reload_if_changed G vw1 vw2 p st = (Inr b, st', evs) \<Longrightarrow> snapshot st' \<noteq> None"
  by (auto simp: mmdb_defs split: sum.splits if_splits option.splits prod.splits)

lemma run_update_Ok:
  assumes "run_update K u mo p w st = (Inr x, w', ops, st', evs)"
  shows "snapshot st \<noteq> None \<Longrightarrow> snapshot st' \<noteq> None"
    and "fst (update_and_build_mmdb (ipnet K) (chrono K) (writer K) (git2 K) u (at_lock mo) (at_stat mo)
      (at_faults mo) (at_time mo) p w) = Ok False \<and> st' = st \<or> snapshot st' \<noteq> None"
  using assms
  by (auto simp: run_update_def dest: reload_Ok_snapshot split: prod.splits sum.splits bool.splits)

lemma rebuilt_reloaded:
  assumes "update_and_build_mmdb (ipnet K) (chrono K) (writer K) (git2 K) u (at_lock mo) (at_stat mo)
      (at_faults mo) (at_time mo) p w = (Inr True, w', ops)"
    and "run_update K u mo p w st = (Inr x, w', ops, st', evs)"
    and "at_reload mo = (view_of fs, view_of fs)"
    and "\<forall>s. snapshot st = Some s \<longrightarrow> modified s \<noteq> Some (at_time mo)"
    and "fs p = Some \<lparr>file_content = bs, file_mtime = at_time mo\<rparr>"
  shows "reload_if_changed (geoip K) (view_of fs) (view_of fs) p st = (Inr True, st', evs)"
  using assms
  by (auto simp: run_update_def reload_if_changed_def view_of_def
      split: prod.splits sum.splits if_splits option.splits)

text \<open>The verdicts of a loaded database are those of the commit it was built from.\<close>

lemma loaded_verdict:
  assumes "mmdb_format W covers content G"
    and "serialise W epoch (parse_files N C A u w (selected_paths ic (tree_blobs tree))) = Ok bs"
    and "snapshot st = Some sn" "g_from_bytes G bs = Inr (reader sn)"
    and "\<forall>(rel, bs)\<in>set (tree_blobs tree). read_file A w (repo_path (repo u) @ rel) = Inr bs"
  shows "fst (should_drop G flt st ip) \<longleftrightarrow> listed N C covers flt ic tree ip"
proof (cases ip)
  case (V4 a)
  show ?thesis
    unfolding V4 listed_def should_drop_rows [OF serialised_find_entry(1) [OF assms(1-4)]]
    by (simp add: blocked_by_rows [OF set_parse_files [OF assms(5)]])
next
  case (V6 b)
  with serialised_find_entry(2) [OF assms(1-4)] show ?thesis by (simp add: should_drop_iff listed_def)
qed

text \<open>A rebuilt database always loads.\<close>

lemma run_update_loads:
  assumes "mmdb_format (writer K) covers content (geoip K)"
    and "update_and_build_mmdb (ipnet K) (chrono K) (writer K) (git2 K) u (at_lock mo) (at_stat mo)
      (at_faults mo) (at_time mo) p w = (Inr True, w', ops)"
    and "at_reload mo = (view_of (run_ops fs ops), view_of (run_ops fs ops))"
    and "\<forall>s. snapshot st = Some s \<longrightarrow> modified s \<noteq> Some (at_time mo)"
  obtains st' evs where "run_update K u mo p w st = (Inr (), w', ops, st', evs)"
proof -
  from assms(2) obtain ipsets epoch n where
    "write_mmdb (writer K) (at_faults mo) (at_time mo) ipsets epoch p = (Inr n, ops)"
    by (blast elim: update_True_cases)
  from write_mmdb_Ok_file [OF this, of fs] obtain bs where
    ser: "serialise (writer K) epoch ipsets = Ok bs" and
    on_disk: "run_ops fs ops p = Some \<lparr>file_content = bs, file_mtime = at_time mo\<rparr>"
    by blast
  from serialise_lookup [OF assms(1) ser] obtain rd where "g_from_bytes (geoip K) bs = Inr rd" by blast
  with on_disk assms(4) have "\<exists>st' evs.
      reload_if_changed (geoip K) (view_of (run_ops fs ops)) (view_of (run_ops fs ops)) p st =
      (Inr True, st', evs)"
    by (cases "snapshot st") (simp_all add: reload_if_changed_def load_locked_def view_of_def)
  then obtain st' evs where
    "reload_if_changed (geoip K) (view_of (run_ops fs ops)) (view_of (run_ops fs ops)) p st =
      (Inr True, st', evs)"
    by blast
  with assms(2,3) show thesis by (intro that) (simp add: run_update_def)
qed

lemma prepare_Ok:
  assumes "prepare G pf c = (Inr p, acts, st, evs)"
  shows "\<exists>dir name. absolute pf (mmdb_path c) = Inr p \<and> p = dir @ [name] \<and>
    acts = (if is_file pf p then [Load_Database p] else []) @
      [Watch_Directory dir name, Listen_Metrics (spoa_listen_adress_metrics_prometheus c)] \<and>
    (is_file pf p \<longrightarrow> snapshot st \<noteq> None) \<and> (\<not> is_file pf p \<longrightarrow> st = mmdb_new)"
  using assms
  by (auto simp: prepare_def Let_def watcher_start_Ok_iff dest: load_Ok_snapshot
      split: if_splits sum.splits prod.splits)

lemma prepare_not_served: "Serve_Spoe a \<notin> set (fst (snd (prepare G pf c)))"
  by (auto simp: prepare_def Let_def split: if_splits sum.splits prod.splits)

text \<open>Inversion: a run that serves went through every step before.\<close>

lemma run_served_cases:
  fixes K :: "('net, 'dt, 'wr, 'w, 'repo, 'remote, 'oid, 'commit, 'rd) crates"
  assumes "run K pf c w = (r, pr)" "Serve_Spoe addr \<in> set (pr_actions pr)"
  obtains p acts st evs w' ops st' evs' where
    "prepare (geoip K) pf c = (Inr p :: ('net, 'oid) run_error + path, acts, st, evs)"
    "run_update K (cli_updater c) (first_update pf) p w st = (Inr (), w', ops, st', evs')"
    "schedule pf c = (Inr () :: ('net, 'oid) run_error + unit)" "addr = spoa_listen_adress c"
    "r = stop_outcome (stopped_by pf)" "pr_store pr = st'"
    "pr_actions pr = acts @ [Run_Update, Schedule_Update (firehol_update_cron_job c),
      Serve_Spoe addr, Stop_Scheduler, Stop_Watcher]"
proof -
  obtain r0 :: "('net, 'oid) run_error + path" and acts st evs where
    prep: "prepare (geoip K) pf c = (r0, acts, st, evs)"
    by (metis prod_cases4)
  have "Serve_Spoe addr \<notin> set acts" by (metis prepare_not_served prep fst_conv snd_conv)
  with assms prep obtain p where p: "r0 = Inr p" by (cases r0) (auto simp: run_def)
  obtain r1 :: "('net, 'oid) run_update_error + unit" and w' ops st' evs' where
    upd: "run_update K (cli_updater c) (first_update pf) p w st = (r1, w', ops, st', evs')"
    by (metis prod_cases5)
  note step = assms prep p upd \<open>Serve_Spoe addr \<notin> set acts\<close>
  have "r1 = Inr ()" using step by (cases r1) (auto simp: run_def Let_def)
  moreover have "schedule pf c = (Inr () :: ('net, 'oid) run_error + unit)"
    using step \<open>r1 = Inr ()\<close>
    by (cases "schedule pf c :: ('net, 'oid) run_error + unit") (auto simp: run_def Let_def)
  ultimately show thesis
    using step by (intro that [of p acts st evs w' ops st' evs']) (auto simp: run_def Let_def)
qed

section \<open>Properties\<close>

text \<open>
  C27. The SPOE listener opens last: when the process serves, it has watched the database's
  directory, exposed the metrics, completed the first update and scheduled the next ones, in this
  order; a database is loaded, unless there was no file at start and the first update was skipped;
  and the process ends by stopping the scheduler and the watcher, whatever ended the serving.
\<close>

theorem run_serves_last:
  fixes K :: "('net, 'dt, 'wr, 'w, 'repo, 'remote, 'oid, 'commit, 'rd) crates"
  assumes "run K pf c w = (r, pr)" and "Serve_Spoe addr \<in> set (pr_actions pr)"
  shows "addr = spoa_listen_adress c \<and> r = stop_outcome (stopped_by pf) \<and>
    (\<exists>p dir name. absolute pf (mmdb_path c) = Ok p \<and> p = dir @ [name] \<and>
      pr_actions pr = (if is_file pf p then [Load_Database p] else []) @
        [Watch_Directory dir name, Listen_Metrics (spoa_listen_adress_metrics_prometheus c), Run_Update,
         Schedule_Update (firehol_update_cron_job c), Serve_Spoe addr, Stop_Scheduler, Stop_Watcher] \<and>
      (snapshot (pr_store pr) \<noteq> None \<or>
       \<not> is_file pf p \<and>
       fst (update_and_build_mmdb (ipnet K) (chrono K) (writer K) (git2 K) (cli_updater c)
         (at_lock (first_update pf)) (at_stat (first_update pf)) (at_faults (first_update pf))
         (at_time (first_update pf)) p w) = Ok False))"
proof -
  from assms obtain p acts st evs w' ops st' evs' where run:
    "prepare (geoip K) pf c = (Inr p :: ('net, 'oid) run_error + path, acts, st, evs)"
    "run_update K (cli_updater c) (first_update pf) p w st = (Inr (), w', ops, st', evs')"
    "addr = spoa_listen_adress c" "r = stop_outcome (stopped_by pf)" "pr_store pr = st'"
    "pr_actions pr = acts @ [Run_Update, Schedule_Update (firehol_update_cron_job c),
      Serve_Spoe addr, Stop_Scheduler, Stop_Watcher]"
    by (rule run_served_cases)
  from prepare_Ok [OF run(1)] obtain dir name where prep: "absolute pf (mmdb_path c) = Inr p"
    "p = dir @ [name]"
    "acts = (if is_file pf p then [Load_Database p] else []) @
      [Watch_Directory dir name, Listen_Metrics (spoa_listen_adress_metrics_prometheus c)]"
    "is_file pf p \<longrightarrow> snapshot st \<noteq> None"
    by blast
  from run_update_Ok [OF run(2)] prep run(3-6) show ?thesis by auto
qed

definition sample_crates where
  "sample_crates =
     \<lparr>ipnet = ref_ipnet, chrono = ref_chrono, writer = ref_writer, git2 = ref_git sample_upstream,
      geoip = ref_geoip\<rparr>"

lemma sample_crates_simps [simp]:
  "ipnet sample_crates = ref_ipnet" "chrono sample_crates = ref_chrono" "writer sample_crates = ref_writer"
  "git2 sample_crates = ref_git sample_upstream" "geoip sample_crates = ref_geoip"
  "commit_id (ref_git U) commit = commit" "commit_tree (ref_git U) commit = Ok (rg_tree commit)"
  "ignore_country sample_updater" "repo_branch (repo sample_updater) = ''master''"
  by (simp_all add: sample_crates_def ref_git_def sample_updater_def)

definition sample_cli :: cli where
  "sample_cli = default_cli\<lparr>mmdb_path := [''db'', ''f.mmdb''], firehol_repo_path := [''clone''],
     firehol_repo_url := ''lists.git'', drop_by_category := [''abuse'']\<rparr>"

text \<open>A first run on an empty disk, the reload seeing the file the update has just written.\<close>

definition sample_moment :: moment where
  "sample_moment =
     (let written = view_of (run_ops (\<lambda>_. None)
            (snd (snd (sample_run Acquired (stat_of (\<lambda>_. None)) None))))
      in \<lparr>at_lock = Acquired, at_stat = stat_of (\<lambda>_. None), at_faults = no_faults, at_time = 9 * 10 ^ 9,
          at_reload = (written, written)\<rparr>)"

definition sample_platform :: platform where
  "sample_platform =
     \<lparr>absolute = Inr, is_file = (\<lambda>_. False), load_views = (view_of (\<lambda>_. None), view_of (\<lambda>_. None)),
      watcher = \<lparr>debouncer_new = Inr (), watch = (\<lambda>_. Inr ())\<rparr>, bind_metrics = (\<lambda>_. Inr ()), first_update = sample_moment,
      scheduler_new = Inr (), job_new = (\<lambda>_. Inr ()), scheduler_add = Inr (), scheduler_start = Inr (),
      stopped_by = Signal_Received (Inr SIGTERM)\<rparr>"

lemma cli_updater_sample: "cli_updater sample_cli = sample_updater"
  by (simp add: cli_updater_def sample_cli_def default_cli_def sample_updater_def)

lemma sample_update_loads:
  obtains w' ops st evs where
    "update_and_build_mmdb (ipnet sample_crates) (chrono sample_crates) (writer sample_crates)
      (git2 sample_crates) sample_updater (at_lock sample_moment) (at_stat sample_moment)
      (at_faults sample_moment) (at_time sample_moment) [''db'', ''f.mmdb''] None = (Ok True, w', ops)"
    "at_reload sample_moment = (view_of (run_ops (\<lambda>_. None) ops), view_of (run_ops (\<lambda>_. None) ops))"
    "run_update sample_crates sample_updater sample_moment [''db'', ''f.mmdb''] None mmdb_new =
      (Ok (), w', ops, st, evs)"
proof -
  obtain w' ops where run: "sample_run Acquired (stat_of (\<lambda>_. None)) None = (Ok True, w', ops)"
    "update_and_build_mmdb ref_ipnet ref_chrono ref_writer (ref_git sample_upstream) sample_updater
       Acquired (stat_of (\<lambda>_. None)) no_faults (9 * 10 ^ 9) [''db'', ''f.mmdb''] None =
     (Ok True, w', ops)"
    by (rule sample_run_Ok)
  have upd: "update_and_build_mmdb (ipnet sample_crates) (chrono sample_crates) (writer sample_crates)
      (git2 sample_crates) sample_updater (at_lock sample_moment) (at_stat sample_moment)
      (at_faults sample_moment) (at_time sample_moment) [''db'', ''f.mmdb''] None = (Ok True, w', ops)"
    using run(2) by (simp add: sample_moment_def Let_def)
  have views: "at_reload sample_moment =
      (view_of (run_ops (\<lambda>_. None) ops), view_of (run_ops (\<lambda>_. None) ops))"
    using run(1) by (simp add: sample_moment_def Let_def)
  have fmt: "mmdb_format (writer sample_crates) cidr_covers ref_content (geoip sample_crates)"
    using ref_format.mmdb_format_axioms by simp
  have fresh: "\<forall>s. snapshot mmdb_new = Some s \<longrightarrow> modified s \<noteq> Some (at_time sample_moment)"
    by (simp add: mmdb_new_def)
  obtain st evs where "run_update sample_crates sample_updater sample_moment [''db'', ''f.mmdb''] None mmdb_new =
      (Ok (), w', ops, st, evs)"
    by (rule run_update_loads [OF fmt upd views fresh])
  with upd views show thesis by (rule that)
qed

lemma sample_prepared:
  "prepare G sample_platform sample_cli =
     (Ok [''db'', ''f.mmdb''], [Watch_Directory [''db''] ''f.mmdb'', Listen_Metrics ''0.0.0.0:8405''], mmdb_new, [])"
  by (simp add: prepare_def metrics_init_empty sample_platform_def sample_cli_def default_cli_def
      watcher_start_def watch_target_def path_parent_def path_file_name_def)

lemma sample_scheduled: "schedule sample_platform sample_cli = Ok ()"
  by (simp add: schedule_def sample_platform_def)

lemma sample_process_serves:
  "Serve_Spoe ''0.0.0.0:9000'' \<in> set (pr_actions (snd (run sample_crates sample_platform sample_cli None)))"
proof -
  obtain w' ops st evs where
    "run_update sample_crates sample_updater sample_moment [''db'', ''f.mmdb''] None mmdb_new =
      (Ok (), w', ops, st, evs)"
    by (rule sample_update_loads)
  moreover have "first_update sample_platform = sample_moment" by (simp add: sample_platform_def)
  moreover have "spoa_listen_adress sample_cli = ''0.0.0.0:9000''"
    by (simp add: sample_cli_def default_cli_def)
  ultimately show ?thesis
    by (simp add: run_def sample_prepared sample_scheduled cli_updater_sample)
qed

theorem run_serves_last_witness:
  "fst (run sample_crates sample_platform sample_cli None) = Ok () \<and>
   last (pr_actions (snd (run sample_crates sample_platform sample_cli None))) = Stop_Watcher"
  using run_serves_last [OF surjective_pairing sample_process_serves]
  by (auto simp: sample_platform_def)

text \<open>
  A listener without a database: the configured path names a directory, whose modification time
  makes the first update skip. The process serves with nothing loaded.
\<close>

definition directory_moment :: moment where
  "directory_moment =
     \<lparr>at_lock = Acquired, at_stat = (\<lambda>_. Inr (Inr (9 * 10 ^ 9))), at_faults = no_faults,
      at_time = 9 * 10 ^ 9, at_reload = (view_of (\<lambda>_. None), view_of (\<lambda>_. None))\<rparr>"

definition directory_platform :: platform where
  "directory_platform = sample_platform\<lparr>first_update := directory_moment\<rparr>"

lemma directory_update_skipped:
  "fst (update_and_build_mmdb ref_ipnet ref_chrono ref_writer (ref_git sample_upstream) sample_updater
     Acquired (\<lambda>_. Inr (Inr (9 * 10 ^ 9))) no_faults (9 * 10 ^ 9) [''db'', ''f.mmdb''] None) = Ok False"
  by code_simp

lemma serves_without_database:
  "Serve_Spoe ''0.0.0.0:9000'' \<in> set (pr_actions (snd (run sample_crates directory_platform sample_cli None)))"
  "pr_store (snd (run sample_crates directory_platform sample_cli None)) = mmdb_new"
proof -
  have prep: "prepare G directory_platform sample_cli =
     (Ok [''db'', ''f.mmdb''], [Watch_Directory [''db''] ''f.mmdb'', Listen_Metrics ''0.0.0.0:8405''], mmdb_new, [])"
    for G :: "firehol_entry trie geoip_api"
    by (simp add: prepare_def metrics_init_empty directory_platform_def sample_platform_def sample_cli_def
        default_cli_def watcher_start_def watch_target_def path_parent_def path_file_name_def)
  have sched: "schedule directory_platform sample_cli = Ok ()"
    by (simp add: directory_platform_def schedule_def sample_platform_def)
  have addr: "spoa_listen_adress sample_cli = ''0.0.0.0:9000''"
    by (simp add: sample_cli_def default_cli_def)
  obtain w' ops where "update_and_build_mmdb ref_ipnet ref_chrono ref_writer (ref_git sample_upstream)
      sample_updater Acquired (\<lambda>_. Inr (Inr (9 * 10 ^ 9))) no_faults (9 * 10 ^ 9) [''db'', ''f.mmdb''] None =
      (Ok False, w', ops)"
    using directory_update_skipped by (metis prod.collapse)
  then have upd: "run_update sample_crates (cli_updater sample_cli) (first_update directory_platform)
      [''db'', ''f.mmdb''] None mmdb_new = (Ok (), w', ops, mmdb_new, [])"
    by (simp add: run_update_def cli_updater_sample directory_platform_def directory_moment_def)
  show "Serve_Spoe ''0.0.0.0:9000'' \<in> set (pr_actions (snd (run sample_crates directory_platform sample_cli None)))"
    "pr_store (snd (run sample_crates directory_platform sample_cli None)) = mmdb_new"
    by (simp_all add: run_def prep upd sched addr)
qed

text \<open>
  C20. A block is attributed to a list that covers the address: the counter's labels are the file
  name, maintainer and category of one covering list, whose category is dropped or, when no covering
  list's category is, whose file name is dropped. All columns of a record have that list's entry, so
  the fallback for a missing entry is never used for the updater's databases.
\<close>

theorem block_attributed:
  assumes "mmdb_format W covers content G" "serialise W epoch ipsets = Ok bs"
    and "g_from_bytes G bs = Ok rd" "snapshot st = Some \<lparr>reader = rd, modified = stamp\<rparr>"
    and "should_drop G flt st (V4 a) = (True, evs)"
  shows "\<exists>name m. (name, m) \<in> set (rows covers a ipsets) \<and>
    evs = [Inc IP_BLOCKED_REQUESTS [name, maintainer m, category m]] \<and>
    (category m \<in> drop_categories flt \<or>
     name \<in> drop_file_names flt \<and> (\<forall>(_, m')\<in>set (rows covers a ipsets). category m' \<notin> drop_categories flt))"
proof -
  let ?rs = "rows covers a ipsets"
  have entry: "find_entry G st (V4 a) = (if ?rs = [] then None else Some (entry_of_rows ?rs))"
    by (rule serialised_find_entry(1) [OF assms(1,2,4)]) (simp add: assms(3))
  with assms(5) obtain h where h: "find_match flt (entry_of_rows ?rs) = Some h"
    "evs = snd (record_block (V4 a) (entry_of_rows ?rs) h)"
    by (auto simp: should_drop_find_entry split: if_splits option.splits)
  from h(1) consider
      (category) "position (\<lambda>c. c \<in> drop_categories flt) (map (category \<circ> snd) ?rs) = Some (hit_index h)"
    | (file_name) "\<forall>c\<in>set (map (category \<circ> snd) ?rs). c \<notin> drop_categories flt"
        "position (\<lambda>f. f \<in> drop_file_names flt) (map fst ?rs) = Some (hit_index h)"
    unfolding find_match_Some_iff by (auto simp: entry_of_rows_def)
  then have hit: "hit_index h < length ?rs \<and>
      (category (snd (?rs ! hit_index h)) \<in> drop_categories flt \<or>
       fst (?rs ! hit_index h) \<in> drop_file_names flt \<and>
       (\<forall>(_, m')\<in>set ?rs. category m' \<notin> drop_categories flt))"
  proof cases
    case category
    from position_SomeD [OF category] show ?thesis by auto
  next
    case file_name
    from position_SomeD [OF file_name(2)] file_name(1) show ?thesis by force
  qed
  obtain name m where row: "?rs ! hit_index h = (name, m)" by fastforce
  with hit have "(name, m) \<in> set ?rs" by (metis nth_mem)
  moreover have "evs = [Inc IP_BLOCKED_REQUESTS [name, maintainer m, category m]]"
    using h(2) hit row by (simp add: record_block_def field_def vec_get_def entry_of_rows_def Let_def)
  ultimately show ?thesis using hit row by fastforce
qed

theorem block_attributed_witness:
  "\<exists>bs rd evs name m. serialise ref_writer 7 sample_ipsets = Ok bs \<and> g_from_bytes ref_geoip bs = Ok rd \<and>
     should_drop ref_geoip (cli_filter sample_cli) \<lparr>snapshot = Some \<lparr>reader = rd, modified = Some 9\<rparr>\<rparr>
       (V4 0x0A010203) = (True, evs) \<and>
     (name, m) \<in> set (rows cidr_covers 0x0A010203 sample_ipsets) \<and>
     evs = [Inc IP_BLOCKED_REQUESTS [name, maintainer m, category m]]"
proof -
  obtain bs where bs: "serialise ref_writer 7 sample_ipsets = Ok bs"
    using sample_serialised unfolding is_ok_iff by blast
  obtain rd where rd: "g_from_bytes ref_geoip bs = Ok rd"
    using serialise_lookup [OF ref_format.mmdb_format_axioms bs] by blast
  let ?st = "\<lparr>snapshot = Some \<lparr>reader = rd, modified = Some 9\<rparr>\<rparr>"
  have entry: "find_entry ref_geoip ?st (V4 a) =
      (if rows cidr_covers a sample_ipsets = [] then None
       else Some (entry_of_rows (rows cidr_covers a sample_ipsets)))" for a
    by (rule serialised_find_entry(1) [OF ref_format.mmdb_format_axioms bs,
          where sn = "\<lparr>reader = rd, modified = Some 9\<rparr>"]) (simp_all add: rd)
  have "fst (should_drop ref_geoip (cli_filter sample_cli) ?st (V4 0x0A010203))"
    by (simp add: should_drop_rows [OF entry] sample_rows cli_filter_def new_filter_def sample_cli_def sample_metadata_def)
  then obtain evs where evs: "should_drop ref_geoip (cli_filter sample_cli) ?st (V4 0x0A010203) = (True, evs)"
    by (cases "should_drop ref_geoip (cli_filter sample_cli) ?st (V4 0x0A010203)") simp
  from block_attributed [OF ref_format.mmdb_format_axioms bs rd _ evs, of "Some 9"] bs rd evs
  show ?thesis by fastforce
qed

end
