(* ===== verification/System.thy ===== *)
theory System
  imports Agent
begin

text \<open>
  The running agent as a transition system: the updater's system calls one by one, the two halves
  of a reload (reading the modification time, then the content) by the watcher or the updater,
  panicking tasks, crashes and restarts, in any interleaving. Requests read the snapshot only and change no state.
  Only the updater writes the database file.
\<close>

subsection \<open>States and steps\<close>

record ('w, 'rd) sys =
  sys_world :: 'w
  sys_fs :: fs
  sys_pending :: "fs_op list" \<comment> \<open>the system calls a running update has still to make\<close>
  sys_reload :: "system_time option option" \<comment> \<open>the stamp a running reload has read\<close>
  sys_store :: "'rd mmdb"

definition sys_init :: "'w \<Rightarrow> fs \<Rightarrow> ('w, 'rd) sys" where
  "sys_init w fs =
     \<lparr>sys_world = w, sys_fs = fs, sys_pending = [], sys_reload = None, sys_store = mmdb_new\<rparr>"

definition stamp_differs :: "'rd mmdb \<Rightarrow> system_time \<Rightarrow> bool" where
  "stamp_differs st m \<longleftrightarrow> (\<forall>s. snapshot st = Some s \<longrightarrow> modified s \<noteq> Some m)"

inductive sys_step ::
  "('net, 'dt, 'wr, 'w, 'repo, 'remote, 'oid, 'commit, 'rd) crates \<Rightarrow> updater \<Rightarrow> path
    \<Rightarrow> ('w, 'rd) sys \<Rightarrow> ('w, 'rd) sys \<Rightarrow> bool"
  for K u p where
  update_begin:
    "sys_pending s = [] \<Longrightarrow>
     update_and_build_mmdb (ipnet K) (chrono K) (writer K) (git2 K) u Acquired (stat_of (sys_fs s))
       flt now p (sys_world s) = (r, w', ops) \<Longrightarrow>
     sys_step K u p s (s\<lparr>sys_world := w', sys_pending := ops\<rparr>)"
| update_call:
    "sys_pending s = op # ops \<Longrightarrow>
     sys_step K u p s (s\<lparr>sys_fs := apply_op (sys_fs s) op, sys_pending := ops\<rparr>)"
| load_begin:
    "sys_reload s = None \<Longrightarrow>
     sys_step K u p s (s\<lparr>sys_reload := Some (ok_of (os_modified (view_of (sys_fs s)) p))\<rparr>)"
| reload_begin:
    "sys_reload s = None \<Longrightarrow> os_modified (view_of (sys_fs s)) p = Inr m \<Longrightarrow>
     stamp_differs (sys_store s) m \<Longrightarrow>
     sys_step K u p s (s\<lparr>sys_reload := Some (Some m)\<rparr>)"
| reload_end:
    "sys_reload s = Some m \<Longrightarrow>
     load_locked (geoip K) (view_of (sys_fs s)) p m (sys_store s) = (r, st', evs) \<Longrightarrow>
     sys_step K u p s (s\<lparr>sys_reload := None, sys_store := st'\<rparr>)"
| update_panic: \<comment> \<open>the blocking task panics; the next run recovers the poisoned lock\<close>
    "sys_step K u p s (s\<lparr>sys_pending := []\<rparr>)"
| reload_panic: \<comment> \<open>likewise for the task that reloads\<close>
    "sys_step K u p s (s\<lparr>sys_reload := None\<rparr>)"
| crash:
    "sys_step K u p s (s\<lparr>sys_pending := [], sys_reload := None, sys_store := mmdb_new\<rparr>)"

inductive sys_reachable ::
  "('net, 'dt, 'wr, 'w, 'repo, 'remote, 'oid, 'commit, 'rd) crates \<Rightarrow> updater \<Rightarrow> path \<Rightarrow> fs
    \<Rightarrow> ('w, 'rd) sys \<Rightarrow> bool"
  for K u p fs0 where
  start: "sys_reachable K u p fs0 (sys_init w fs0)"
| step: "sys_reachable K u p fs0 s \<Longrightarrow> sys_step K u p s s' \<Longrightarrow> sys_reachable K u p fs0 s'"

inductive_cases sys_stepE: "sys_step K u p s s'"

text \<open>The two halves are the reload of the code, with the file changing in between or not.\<close>

lemma reload_halves:
  "reload_if_changed G (view_of fs1) (view_of fs2) p st =
     (case os_modified (view_of fs1) p of
        Inl e \<Rightarrow> (Err (Stat_Failed p e), st, [])
      | Inr m \<Rightarrow>
          (if stamp_differs st m then
             (case load_locked G (view_of fs2) p (Some m) st of
                (r, st', evs) \<Rightarrow> (case r of Inl e \<Rightarrow> Err e | Inr _ \<Rightarrow> Ok True, st', evs))
           else (Ok False, st, [])))"
  by (auto simp: reload_if_changed_def stamp_differs_def split: sum.splits option.splits prod.splits)

subsection \<open>The invariant\<close>

text \<open>Contents the database file may have: the one it had at first, or a complete database.\<close>

definition complete_db ::
  "('wr, 'net) writer_api \<Rightarrow> path \<Rightarrow> fs \<Rightarrow> bytes \<Rightarrow> bool" where
  "complete_db W p fs0 bs \<longleftrightarrow>
     (\<exists>f. fs0 p = Some f \<and> bs = file_content f) \<or>
     (\<exists>epoch ipsets. serialise W epoch ipsets = Ok bs)"

definition file_complete :: "('wr, 'net) writer_api \<Rightarrow> path \<Rightarrow> fs \<Rightarrow> fs \<Rightarrow> bool" where
  "file_complete W p fs0 fs \<longleftrightarrow> (\<forall>f. fs p = Some f \<longrightarrow> complete_db W p fs0 (file_content f))"

text \<open>The pending calls are the rest of one \<open>write_mmdb\<close> that began on a complete file.\<close>

definition update_running ::
  "('wr, 'net) writer_api \<Rightarrow> path \<Rightarrow> fs \<Rightarrow> fs \<Rightarrow> fs_op list \<Rightarrow> bool" where
  "update_running W p fs0 fs pending \<longleftrightarrow>
     (\<exists>fs1 ops k. file_complete W p fs0 fs1 \<and> fs = run_ops fs1 (take k ops) \<and> pending = drop k ops \<and>
        (ops = [] \<or> (\<exists>flt now ipsets epoch r. write_mmdb W flt now ipsets epoch p = (r, ops))))"

definition store_complete ::
  "'rd geoip_api \<Rightarrow> ('wr, 'net) writer_api \<Rightarrow> path \<Rightarrow> fs \<Rightarrow> 'rd mmdb \<Rightarrow> bool" where
  "store_complete G W p fs0 st \<longleftrightarrow>
     (\<forall>sn. snapshot st = Some sn \<longrightarrow>
        (\<exists>bs. complete_db W p fs0 bs \<and> g_from_bytes G bs = Inr (reader sn)))"

definition sys_inv ::
  "('net, 'dt, 'wr, 'w, 'repo, 'remote, 'oid, 'commit, 'rd) crates \<Rightarrow> path \<Rightarrow> fs \<Rightarrow> ('w, 'rd) sys \<Rightarrow> bool"
where
  "sys_inv K p fs0 s \<longleftrightarrow>
     update_running (writer K) p fs0 (sys_fs s) (sys_pending s) \<and>
     store_complete (geoip K) (writer K) p fs0 (sys_store s)"

lemma run_ops_snoc: "run_ops fs (ops @ [op]) = apply_op (run_ops fs ops) op"
  by (simp add: run_ops_def)

lemma update_running_complete:
  assumes "with_extension p ''tmp'' \<noteq> p" "update_running W p fs0 fs pending"
  shows "file_complete W p fs0 fs"
proof -
  from assms(2) obtain fs1 ops k where r: "file_complete W p fs0 fs1" "fs = run_ops fs1 (take k ops)"
    "ops = [] \<or> (\<exists>flt now ipsets epoch r. write_mmdb W flt now ipsets epoch p = (r, ops))"
    unfolding update_running_def by blast
  show ?thesis
  proof (cases "ops = []")
    case True
    with r(1,2) show ?thesis by simp
  next
    case False
    with r(3) obtain flt now ipsets epoch res where
      w: "write_mmdb W flt now ipsets epoch p = (res, ops)" by blast
    consider "fs p = fs1 p" | bs where "serialise W epoch ipsets = Ok bs"
      "fs p = Some \<lparr>file_content = bs, file_mtime = now\<rparr>"
      using write_mmdb_crash [OF assms(1) w, of fs1 k] unfolding r(2) by blast
    then show ?thesis
    proof cases
      case 1
      with r(1) show ?thesis by (simp add: file_complete_def)
    next
      case 2
      then show ?thesis by (auto simp: file_complete_def complete_db_def)
    qed
  qed
qed

lemma update_running_idle: "file_complete W p fs0 fs \<Longrightarrow> update_running W p fs0 fs []"
  unfolding update_running_def by (intro exI [of _ fs] exI [of _ "[]"]) simp

lemma update_running_call:
  assumes "update_running W p fs0 fs (op # ops)"
  shows "update_running W p fs0 (apply_op fs op) ops"
proof -
  from assms obtain fs1 all k where r: "file_complete W p fs0 fs1" "fs = run_ops fs1 (take k all)"
    "op # ops = drop k all"
    "all = [] \<or> (\<exists>flt now ipsets epoch r. write_mmdb W flt now ipsets epoch p = (r, all))"
    unfolding update_running_def by blast
  from r(3) have "drop k all \<noteq> []" by (metis list.distinct(1))
  then have k: "k < length all" by simp
  with r(3) have at_k: "all ! k = op" "drop (Suc k) all = ops"
    by (metis Cons_nth_drop_Suc list.inject)+
  with k have "apply_op fs op = run_ops fs1 (take (Suc k) all)"
    by (simp add: r(2) take_Suc_conv_app_nth run_ops_snoc del: run_ops_simps(3))
  with r(1,4) at_k(2) show ?thesis unfolding update_running_def by metis
qed

lemma update_running_begin:
  assumes "file_complete (writer K) p fs0 fs"
    and "update_and_build_mmdb (ipnet K) (chrono K) (writer K) (git2 K) u lock stat flt now p w = (r, w', ops)"
  shows "update_running (writer K) p fs0 fs ops"
  using update_writes [OF assms(2)] assms(1)
  unfolding update_running_def by (intro exI [of _ fs] exI [of _ ops] exI [of _ 0]) auto

lemma store_complete_load:
  assumes "file_complete W p fs0 fs" "store_complete G W p fs0 st"
    and "load_locked G (view_of fs) p m st = (r, st', evs)"
  shows "store_complete G W p fs0 st'"
proof (cases r)
  case (Inl e)
  with assms(2,3) show ?thesis by (auto dest: load_locked_Err)
next
  case (Inr x)
  with assms(1,3) show ?thesis
    by (auto simp: load_locked_Ok_iff store_complete_def file_complete_def view_of_def split: option.splits)
       blast
qed

lemma sys_step_inv:
  assumes "with_extension p ''tmp'' \<noteq> p" "sys_inv K p fs0 s" "sys_step K u p s s'"
  shows "sys_inv K p fs0 s'"
proof -
  have on_disk: "file_complete (writer K) p fs0 (sys_fs s)"
    by (rule update_running_complete [OF assms(1), of _ _ _ "sys_pending s"]) (use assms(2) in \<open>simp add: sys_inv_def\<close>)
  from assms(3) show ?thesis
  proof cases
    case (update_begin flt now r w' ops)
    with assms(2) show ?thesis by (auto simp: sys_inv_def intro: update_running_begin [OF on_disk])
  next
    case (update_call op ops)
    with assms(2) show ?thesis by (auto simp: sys_inv_def intro: update_running_call)
  next
    case (reload_end m r st' evs)
    with assms(2) show ?thesis by (auto simp: sys_inv_def intro: store_complete_load [OF on_disk])
  next
    case update_panic
    with on_disk assms(2) show ?thesis by (simp add: sys_inv_def update_running_idle)
  next
    case crash
    with on_disk show ?thesis
      by (simp add: sys_inv_def store_complete_def mmdb_new_def update_running_idle)
  qed (use assms(2) in \<open>simp_all add: sys_inv_def\<close>)
qed

lemma sys_init_inv: "sys_inv K p fs0 (sys_init w fs0)"
  unfolding sys_inv_def sys_init_def
  by (auto intro!: update_running_idle simp: file_complete_def complete_db_def store_complete_def mmdb_new_def)

lemma sys_reachable_inv:
  assumes "sys_reachable K u p fs0 s" "with_extension p ''tmp'' \<noteq> p"
  shows "sys_inv K p fs0 s"
  using assms by (induction rule: sys_reachable.induct) (auto intro: sys_init_inv sys_step_inv)

lemma sys_reachable_drain:
  "sys_reachable K u p fs0 s \<Longrightarrow> sys_pending s = ops \<Longrightarrow>
    sys_reachable K u p fs0 (s\<lparr>sys_fs := run_ops (sys_fs s) ops, sys_pending := []\<rparr>)"
proof (induction ops arbitrary: s)
  case Nil
  then have "s\<lparr>sys_fs := run_ops (sys_fs s) [], sys_pending := []\<rparr> = s" by (cases s) simp
  with Nil.prems(1) show ?case by simp
next
  case (Cons op ops)
  from Cons.IH [OF sys_reachable.step [OF Cons.prems(1) update_call [OF Cons.prems(2)]]]
  show ?case by simp
qed

section \<open>Properties\<close>

text \<open>
  C2. No torn database, whatever the interleaving: as long as only the updater writes the file,
  in every reachable state, also after crashes in the middle of an update, the database file is the
  one found at first or one complete build, and the store answers every lookup with nothing, from
  the first file's content, or exactly as one collection of parsed lists says.
\<close>

theorem no_torn_database:
  assumes "sys_reachable K u p fs0 s" "with_extension p ''tmp'' \<noteq> p"
    and "mmdb_format (writer K) covers content (geoip K)"
  shows "(\<forall>f. sys_fs s p = Some f \<longrightarrow>
      (\<exists>f0. fs0 p = Some f0 \<and> file_content f = file_content f0) \<or>
      (\<exists>epoch ipsets. serialise (writer K) epoch ipsets = Ok (file_content f))) \<and>
    (find_entry (geoip K) (sys_store s) = (\<lambda>_. None) \<or>
     (\<exists>f0 rd. fs0 p = Some f0 \<and> g_from_bytes (geoip K) (file_content f0) = Ok rd \<and>
        find_entry (geoip K) (sys_store s) = query_db (geoip K) rd) \<or>
     (\<exists>ipsets. \<forall>a. find_entry (geoip K) (sys_store s) (V4 a) =
        (if rows covers a ipsets = [] then None else Some (entry_of_rows (rows covers a ipsets)))))"
proof -
  from sys_reachable_inv [OF assms(1,2)] have inv:
    "update_running (writer K) p fs0 (sys_fs s) (sys_pending s)"
    "store_complete (geoip K) (writer K) p fs0 (sys_store s)"
    by (simp_all add: sys_inv_def)
  have "file_complete (writer K) p fs0 (sys_fs s)"
    by (rule update_running_complete [OF assms(2) inv(1)])
  moreover have "find_entry (geoip K) (sys_store s) = (\<lambda>_. None) \<or>
     (\<exists>f0 rd. fs0 p = Some f0 \<and> g_from_bytes (geoip K) (file_content f0) = Ok rd \<and>
        find_entry (geoip K) (sys_store s) = query_db (geoip K) rd) \<or>
     (\<exists>ipsets. \<forall>a. find_entry (geoip K) (sys_store s) (V4 a) =
        (if rows covers a ipsets = [] then None else Some (entry_of_rows (rows covers a ipsets))))"
  proof (cases "snapshot (sys_store s)")
    case None
    then show ?thesis by (simp add: find_entry_None)
  next
    case (Some sn)
    with inv(2) obtain bs where bs: "complete_db (writer K) p fs0 bs" "g_from_bytes (geoip K) bs = Inr (reader sn)"
      by (auto simp: store_complete_def)
    from bs(1) show ?thesis
      unfolding complete_db_def
      using find_entry_snapshot [OF Some] serialised_find_entry(1) [OF assms(3) _ Some bs(2)] bs(2) by blast
  qed
  ultimately show ?thesis unfolding file_complete_def complete_db_def by blast
qed

text \<open>One update to its end, then a reload.\<close>

theorem no_torn_database_witness:
  "\<exists>s f epoch ipsets. sys_reachable sample_crates sample_updater [''db'', ''f.mmdb''] (\<lambda>_. None) s \<and>
     snapshot (sys_store s) \<noteq> None \<and> sys_fs s [''db'', ''f.mmdb''] = Some f \<and>
     serialise ref_writer epoch (ipsets :: cidr ipset list) = Ok (file_content f)"
proof -
  let ?p = "[''db'', ''f.mmdb'']"
  obtain w' ops st evs where run:
    "update_and_build_mmdb (ipnet sample_crates) (chrono sample_crates) (writer sample_crates)
      (git2 sample_crates) sample_updater (at_lock sample_moment) (at_stat sample_moment)
      (at_faults sample_moment) (at_time sample_moment) ?p None = (Ok True, w', ops)"
    "at_reload sample_moment = (view_of (run_ops (\<lambda>_. None) ops), view_of (run_ops (\<lambda>_. None) ops))"
    "run_update sample_crates sample_updater sample_moment ?p None mmdb_new = (Ok (), w', ops, st, evs)"
    by (rule sample_update_loads)
  let ?fs = "run_ops (\<lambda>_. None) ops"
  let ?s1 = "(sys_init None (\<lambda>_. None) :: (rg_world, firehol_entry trie) sys)
    \<lparr>sys_world := w', sys_pending := ops\<rparr>"
  let ?s2 = "?s1\<lparr>sys_fs := ?fs, sys_pending := []\<rparr>"
  have "sys_reachable sample_crates sample_updater ?p (\<lambda>_. None) ?s1"
    using run(1) by (intro sys_reachable.step [OF sys_reachable.start update_begin])
      (simp_all add: sys_init_def sample_moment_def Let_def)
  from sys_reachable_drain [OF this refl]
  have r2: "sys_reachable sample_crates sample_updater ?p (\<lambda>_. None) ?s2" by (simp add: sys_init_def)
  from run(1) obtain ipsets epoch n where
    "write_mmdb (writer sample_crates) (at_faults sample_moment) (at_time sample_moment) ipsets epoch ?p = (Inr n, ops)"
    by (blast elim: update_True_cases)
  from write_mmdb_Ok_file [OF this, of "\<lambda>_. None"] obtain bs where
    ser: "serialise ref_writer epoch ipsets = Ok bs" and
    on_disk: "?fs ?p = Some \<lparr>file_content = bs, file_mtime = at_time sample_moment\<rparr>"
    by auto
  have format: "mmdb_format (writer sample_crates) cidr_covers ref_content (geoip sample_crates)"
    using ref_format.mmdb_format_axioms by simp
  from serialise_lookup [OF ref_format.mmdb_format_axioms ser] obtain rd where
    rd: "g_from_bytes ref_geoip bs = Inr rd" by blast
  let ?s3 = "?s2\<lparr>sys_reload := Some (Some (at_time sample_moment))\<rparr>"
  let ?st = "\<lparr>snapshot = Some \<lparr>reader = rd, modified = Some (at_time sample_moment)\<rparr>\<rparr>"
  let ?s4 = "?s3\<lparr>sys_reload := None, sys_store := ?st\<rparr>"
  have r3: "sys_reachable sample_crates sample_updater ?p (\<lambda>_. None) ?s3"
    by (rule sys_reachable.step [OF r2 reload_begin])
       (simp_all add: sys_init_def view_of_def on_disk stamp_differs_def mmdb_new_def)
  have "load_locked (geoip sample_crates) (view_of (sys_fs ?s3)) ?p (Some (at_time sample_moment)) (sys_store ?s3) =
      (Ok (), ?st, [Set_Gauge MMDB_NODE_COUNT (uint (g_node_count ref_geoip rd)), Inc MMDB_FILE_LOADED [path_str ?p]])"
    by (simp add: load_locked_def view_of_def on_disk rd sys_init_def mmdb_new_def)
  then have r4: "sys_reachable sample_crates sample_updater ?p (\<lambda>_. None) ?s4"
    by (intro sys_reachable.step [OF r3 reload_end]) simp_all
  have "\<exists>epoch ipsets. serialise ref_writer epoch (ipsets :: cidr ipset list) =
      Ok (file_content \<lparr>file_content = bs, file_mtime = at_time sample_moment\<rparr>)"
    using no_torn_database [OF r4 sample_output format] on_disk by simp
  with r4 on_disk show ?thesis by (intro exI [of _ ?s4]) (simp add: sys_init_def)
qed

end
