(* ===== verification/Convergence.thy ===== *)
theory Convergence
  imports Hot_Reload System
begin

text \<open>
  The agent's reloads catch up with its updates. The transition system of \<open>System\<close> is
  observed together with a clock: the modification time of a database file is later than those of
  all versions before it. Under this assumption a loaded snapshot that carries the file's time holds
  the file's content, so that the watcher's reload after the last change always ends with the
  current database being served.
\<close>

subsection \<open>Runs with a clock\<close>

text \<open>A step keeps the database file, removes it, or puts a version with a later time in place.\<close>

definition clock_step :: "path \<Rightarrow> fs \<Rightarrow> system_time \<Rightarrow> fs \<Rightarrow> system_time \<Rightarrow> bool" where
  "clock_step p fs t fs' t' \<longleftrightarrow>
     (case fs' p of
        None \<Rightarrow> t' = t
      | Some f \<Rightarrow> fs p = Some f \<and> t' = t \<or> t < file_mtime f \<and> t' = file_mtime f)"

inductive timed_reachable ::
  "('net, 'dt, 'wr, 'w, 'repo, 'remote, 'oid, 'commit, 'rd) crates \<Rightarrow> updater \<Rightarrow> path \<Rightarrow> fs
    \<Rightarrow> ('w, 'rd) sys \<Rightarrow> system_time \<Rightarrow> bool"
  for K u p fs0 where
  timed_start: "file_old p t fs0 \<Longrightarrow> timed_reachable K u p fs0 (sys_init w fs0) t"
| timed_step:
    "timed_reachable K u p fs0 s t \<Longrightarrow> sys_step K u p s s' \<Longrightarrow>
     clock_step p (sys_fs s) t (sys_fs s') t' \<Longrightarrow> timed_reachable K u p fs0 s' t'"

lemma timed_reachable_untimed: "timed_reachable K u p fs0 s t \<Longrightarrow> sys_reachable K u p fs0 s"
  by (induction rule: timed_reachable.induct) (auto intro: sys_reachable.intros)

subsection \<open>The invariant\<close>

definition timed_inv ::
  "('net, 'dt, 'wr, 'w, 'repo, 'remote, 'oid, 'commit, 'rd) crates \<Rightarrow> path \<Rightarrow> ('w, 'rd) sys
    \<Rightarrow> system_time \<Rightarrow> bool" where
  "timed_inv K p s t \<longleftrightarrow>
     file_old p t (sys_fs s) \<and> (\<forall>m. sys_reload s = Some (Some m) \<longrightarrow> m \<le> t) \<and>
     store_fresh (geoip K) p t (sys_fs s) (sys_store s)"

lemma clock_step_mono: "clock_step p fs t fs' t' \<Longrightarrow> t \<le> t'"
  by (auto simp: clock_step_def split: option.splits)

lemma clock_step_old: "clock_step p fs t fs' t' \<Longrightarrow> file_old p t fs \<Longrightarrow> file_old p t' fs'"
  by (auto simp: clock_step_def file_old_def split: option.splits)

lemma clock_step_fresh:
  "clock_step p fs t fs' t' \<Longrightarrow> store_fresh G p t fs st \<Longrightarrow> store_fresh G p t' fs' st"
  by (fastforce simp: clock_step_def store_fresh_def snapshot_fresh_def split: option.splits)

lemma clock_step_same: "clock_step p fs t fs t' \<Longrightarrow> file_old p t fs \<Longrightarrow> t' = t"
  by (auto simp: clock_step_def file_old_def split: option.splits)

lemma file_old_stamp: "file_old p t fs \<Longrightarrow> os_modified (view_of fs) p = Inr m \<Longrightarrow> m \<le> t"
  by (auto simp: file_old_def)

lemma timed_step_inv:
  assumes "timed_inv K p s t" "sys_step K u p s s'" "clock_step p (sys_fs s) t (sys_fs s') t'"
  shows "timed_inv K p s' t'"
proof -
  from assms(1) have inv: "file_old p t (sys_fs s)" "\<And>m. sys_reload s = Some (Some m) \<Longrightarrow> m \<le> t"
    "store_fresh (geoip K) p t (sys_fs s) (sys_store s)"
    by (auto simp: timed_inv_def)
  from assms(2) show ?thesis
  proof cases
    case (update_begin flt now r w' ops)
    with assms(3) inv clock_step_same [of p "sys_fs s" t t'] show ?thesis by (simp add: timed_inv_def)
  next
    case (update_call op ops)
    with assms(3) inv show ?thesis
      using clock_step_mono [OF assms(3)] clock_step_old [OF assms(3)] clock_step_fresh [OF assms(3)]
      by (auto simp: timed_inv_def intro: order_trans)
  next
    case load_begin
    with assms(3) inv have "t' = t" using clock_step_same [of p "sys_fs s" t t'] by simp
    moreover have "m \<le> t" if "ok_of (os_modified (view_of (sys_fs s)) p) = Some m" for m
      using that file_old_stamp [OF inv(1)] by (cases "os_modified (view_of (sys_fs s)) p") auto
    ultimately show ?thesis using load_begin inv by (simp add: timed_inv_def)
  next
    case (reload_begin m)
    with assms(3) inv have "t' = t" using clock_step_same [of p "sys_fs s" t t'] by simp
    moreover have "m \<le> t" by (rule file_old_stamp [OF inv(1) reload_begin(3)])
    ultimately show ?thesis using reload_begin(1) inv by (simp add: timed_inv_def)
  next
    case (reload_end m r st' evs)
    with assms(3) inv have t: "t' = t" using clock_step_same [of p "sys_fs s" t t'] by simp
    have "store_fresh (geoip K) p t (sys_fs s) st'"
      unfolding store_fresh_def
    proof (intro allI impI)
      fix sn assume "snapshot st' = Some sn"
      with inv(2,3) reload_end(2) show "snapshot_fresh (geoip K) p t (sys_fs s) sn"
        by (intro load_locked_fresh [OF reload_end(3)]) (auto simp only: store_fresh_def)
    qed
    with reload_end inv t show ?thesis by (simp add: timed_inv_def)
  next
    case update_panic
    with assms(3) inv clock_step_same [of p "sys_fs s" t t'] show ?thesis by (simp add: timed_inv_def)
  next
    case reload_panic
    with assms(3) inv clock_step_same [of p "sys_fs s" t t'] show ?thesis by (simp add: timed_inv_def)
  next
    case crash
    with assms(3) inv clock_step_same [of p "sys_fs s" t t'] show ?thesis
      by (simp add: timed_inv_def store_fresh_def mmdb_new_def)
  qed
qed

lemma timed_reachable_inv: "timed_reachable K u p fs0 s t \<Longrightarrow> timed_inv K p s t"
proof (induction rule: timed_reachable.induct)
  case (timed_start t w)
  then show ?case by (simp add: timed_inv_def sys_init_def store_fresh_def mmdb_new_def)
qed (rule timed_step_inv)

text \<open>A reload of a file at rest that can be read succeeds and serves the file.\<close>

lemma reload_at_rest:
  assumes "store_fresh G p t fs st" "fs p = Some f" "g_from_bytes G (file_content f) = Inr rd"
  obtains b st' evs where "reload_if_changed G (view_of fs) (view_of fs) p st = (Ok b, st', evs)"
    "find_entry G st' = query_db G rd"
proof -
  have stamp: "os_modified (view_of fs) p = Inr (file_mtime f)" using assms(2) by simp
  show thesis
  proof (cases "stamp_differs st (file_mtime f)")
    case True
    let ?st = "st\<lparr>snapshot := Some \<lparr>reader = rd, modified = Some (file_mtime f)\<rparr>\<rparr>"
    let ?evs = "[Set_Gauge MMDB_NODE_COUNT (uint (g_node_count G rd)), Inc MMDB_FILE_LOADED [path_str p]]"
    have "load_locked G (view_of fs) p (Some (file_mtime f)) st = (Inr (), ?st, ?evs)"
      using assms(2,3) by (simp add: load_locked_Ok_iff)
    with True have "reload_if_changed G (view_of fs) (view_of fs) p st = (Ok True, ?st, ?evs)"
      by (simp add: reload_halves stamp del: view_of_simps)
    moreover have "find_entry G ?st = query_db G rd" using find_entry_snapshot [of ?st] by simp
    ultimately show ?thesis by (rule that)
  next
    case False
    then obtain sn where sn: "snapshot st = Some sn" "modified sn = Some (file_mtime f)"
      by (auto simp: stamp_differs_def)
    with assms have "g_from_bytes G (file_content f) = Inr (reader sn)"
      by (auto simp: store_fresh_def snapshot_fresh_def)
    with assms(3) sn have "find_entry G st = query_db G rd" by (simp add: find_entry_snapshot)
    moreover from False have "reload_if_changed G (view_of fs) (view_of fs) p st = (Ok False, st, [])"
      by (simp add: reload_halves stamp del: view_of_simps)
    ultimately show ?thesis by (rule that [rotated])
  qed
qed

section \<open>Properties\<close>

text \<open>
  C8. No update of the running agent is lost: in every reachable state, with updates, reloads and
  crashes interleaved in any way and modification times that advance, a reload that succeeds while
  the file is at rest serves the file's content, also when it was skipped because of the stamp.
\<close>

theorem agent_no_lost_update:
  assumes "timed_reachable K u p fs0 s t"
    and "reload_if_changed (geoip K) (view_of (sys_fs s)) (view_of (sys_fs s)) p (sys_store s) = (Ok b, st', evs)"
  shows "\<exists>f rd. sys_fs s p = Some f \<and> g_from_bytes (geoip K) (file_content f) = Ok rd \<and>
    find_entry (geoip K) st' = query_db (geoip K) rd"
  by (rule reload_Ok_current [of _ p t, OF _ assms(2)])
     (use timed_reachable_inv [OF assms(1)] in \<open>simp add: timed_inv_def\<close>)

text \<open>The database found at start-up is loaded; the reload after it is skipped.\<close>

theorem agent_no_lost_update_witness:
  "\<exists>s st'. timed_reachable sample_crates sample_updater [''firehol.mmdb''] (tiny_fs 5) s 5 \<and>
     reload_if_changed ref_geoip (view_of (sys_fs s)) (view_of (sys_fs s)) [''firehol.mmdb''] (sys_store s)
       = (Ok False, st', []) \<and>
     find_entry ref_geoip st' = query_db ref_geoip (Node (Leaf None) (Leaf (Some default_entry)))"
proof -
  let ?p = "[''firehol.mmdb'']"
  let ?rd = "Node (Leaf None) (Leaf (Some default_entry))"
  let ?st = "\<lparr>snapshot = Some \<lparr>reader = ?rd, modified = Some 5\<rparr>\<rparr>"
  let ?s0 = "sys_init None (tiny_fs 5) :: (rg_world, firehol_entry trie) sys"
  let ?s1 = "?s0\<lparr>sys_reload := Some (Some 5)\<rparr>"
  let ?s2 = "?s1\<lparr>sys_reload := None, sys_store := ?st\<rparr>"
  have still: "clock_step ?p (tiny_fs 5) 5 (tiny_fs 5) 5" by (simp add: clock_step_def tiny_fs_def)
  have r0: "timed_reachable sample_crates sample_updater ?p (tiny_fs 5) ?s0 5"
    by (rule timed_start) (simp add: file_old_def tiny_fs_def)
  have "sys_step sample_crates sample_updater ?p ?s0 ?s1"
    using load_begin [of ?s0 sample_crates sample_updater ?p] by (simp add: sys_init_def tiny_view del: view_of_simps)
  with r0 have r1: "timed_reachable sample_crates sample_updater ?p (tiny_fs 5) ?s1 5"
    by (rule timed_step) (simp add: sys_init_def still)
  have "load_locked ref_geoip (view_of (sys_fs ?s1)) ?p (Some 5) (sys_store ?s1) =
      (Ok (), ?st, [Set_Gauge MMDB_NODE_COUNT (uint (g_node_count ref_geoip ?rd)), Inc MMDB_FILE_LOADED [path_str ?p]])"
    by (simp add: load_locked_def sys_init_def mmdb_new_def tiny_view tiny_db_readable del: view_of_simps)
  then have "sys_step sample_crates sample_updater ?p ?s1 ?s2"
    by (intro reload_end) simp_all
  with r1 have r2: "timed_reachable sample_crates sample_updater ?p (tiny_fs 5) ?s2 5"
    by (rule timed_step) (simp add: sys_init_def still)
  have again: "reload_if_changed (geoip sample_crates) (view_of (sys_fs ?s2)) (view_of (sys_fs ?s2)) ?p (sys_store ?s2)
      = (Ok False, ?st, [])"
    by (simp add: reload_if_changed_def sys_init_def tiny_view del: view_of_simps)
  from agent_no_lost_update [OF r2 again]
  have "find_entry ref_geoip ?st = query_db ref_geoip ?rd"
    by (auto simp: sys_init_def tiny_fs_def tiny_db_readable)
  with r2 again show ?thesis by (intro exI [of _ ?s2] exI [of _ ?st]) simp
qed

text \<open>
  C3. The watcher catches up: once the database file is one of the updater's complete builds and
  stays at rest, the first batch of events that names it makes the agent serve it, whatever
  interleaving of updates, reloads and crashes led there: no error is possible and every IPv4
  address is answered from exactly the lists of that build.
\<close>

theorem watcher_catches_up:
  assumes "timed_reachable K u p fs0 s t" "mmdb_format (writer K) covers content (geoip K)"
    and "sys_fs s p = Some f" "serialise (writer K) epoch ipsets = Ok (file_content f)"
    and "batch_relevant name events"
  shows "\<exists>out st' evs.
    watch_step (geoip K) p name (view_of (sys_fs s), view_of (sys_fs s)) (Inr events) (sys_store s) = (out, st', evs) \<and>
    out \<in> {Reloaded, Up_To_Date} \<and>
    (\<forall>a. find_entry (geoip K) st' (V4 a) =
       (if rows covers a ipsets = [] then None else Some (entry_of_rows (rows covers a ipsets))))"
proof -
  have fresh: "store_fresh (geoip K) p t (sys_fs s) (sys_store s)"
    using timed_reachable_inv [OF assms(1)] by (simp add: timed_inv_def)
  obtain rd where rd: "g_from_bytes (geoip K) (file_content f) = Inr rd"
    "\<And>a. query_db (geoip K) rd (V4 a) =
       (if rows covers a ipsets = [] then None else Some (entry_of_rows (rows covers a ipsets)))"
    using serialise_lookup [OF assms(2,4)] by (auto simp: query_db_def)
  obtain b st' evs where r:
    "reload_if_changed (geoip K) (view_of (sys_fs s)) (view_of (sys_fs s)) p (sys_store s) = (Ok b, st', evs)"
    "find_entry (geoip K) st' = query_db (geoip K) rd"
    by (rule reload_at_rest [OF fresh assms(3) rd(1)])
  have "watch_step (geoip K) p name (view_of (sys_fs s), view_of (sys_fs s)) (Inr events) (sys_store s) =
      (if b then Reloaded else Up_To_Date, st', evs)"
    using assms(5) r(1) by (cases b) (simp_all add: watch_step_def)
  with r(2) rd(2) show ?thesis by simp
qed

text \<open>A restart on a database built before.\<close>

theorem watcher_catches_up_witness:
  "\<exists>bs out st' evs. serialise ref_writer 7 sample_ipsets = Ok bs \<and>
    watch_step ref_geoip [''firehol.mmdb''] ''firehol.mmdb''
      (view_of [[''firehol.mmdb''] \<mapsto> \<lparr>file_content = bs, file_mtime = 9\<rparr>],
       view_of [[''firehol.mmdb''] \<mapsto> \<lparr>file_content = bs, file_mtime = 9\<rparr>])
      (Inr [[''firehol.mmdb'']]) mmdb_new = (out, st', evs) \<and>
    find_entry ref_geoip st' (V4 0x0A010203) =
      Some (entry_of_rows (rows cidr_covers 0x0A010203 sample_ipsets))"
proof -
  let ?p = "[''firehol.mmdb'']"
  obtain bs where bs: "serialise ref_writer 7 sample_ipsets = Ok bs"
    using sample_serialised unfolding is_ok_iff by blast
  let ?f = "\<lparr>file_content = bs, file_mtime = 9\<rparr>"
  let ?s = "sys_init None [?p \<mapsto> ?f] :: (rg_world, firehol_entry trie) sys"
  have s: "timed_reachable sample_crates sample_updater ?p [?p \<mapsto> ?f] ?s 9"
    by (rule timed_start) (simp add: file_old_def)
  have format: "mmdb_format (writer sample_crates) cidr_covers ref_content (geoip sample_crates)"
    using ref_format.mmdb_format_axioms by simp
  have on_disk: "sys_fs ?s ?p = Some ?f" "serialise (writer sample_crates) 7 sample_ipsets = Ok (file_content ?f)"
    "batch_relevant ''firehol.mmdb'' [?p]"
    using bs by (simp_all add: sys_init_def batch_relevant_def path_file_name_def)
  from watcher_catches_up [OF s format on_disk] obtain out st' evs where w:
    "watch_step ref_geoip ?p ''firehol.mmdb'' (view_of (sys_fs ?s), view_of (sys_fs ?s)) (Inr [?p]) (sys_store ?s)
      = (out, st', evs)"
    "find_entry ref_geoip st' (V4 0x0A010203) =
      (if rows cidr_covers 0x0A010203 sample_ipsets = [] then None
       else Some (entry_of_rows (rows cidr_covers 0x0A010203 sample_ipsets)))"
    by auto
  have "sys_fs ?s = [?p \<mapsto> ?f]" "sys_store ?s = mmdb_new" by (simp_all add: sys_init_def)
  with bs w sample_rows show ?thesis
    by (intro exI [of _ bs] exI [of _ out] exI [of _ st'] exI [of _ evs]) simp
qed

end
