(* ===== verification/Build_Script.thy ===== *)
theory Build_Script
  imports Firehol
begin

text \<open>
  \<open>build.rs\<close>: the version string embedded in the binary, and the files whose change makes
  Cargo run the script again. The environment, the output of the \<open>git\<close> commands and the files
  of the checkout are what the script is given; its result is the list of lines it prints.
\<close>

record git_output =
  exit_success :: bool
  stdout :: bytes

record build_world =
  env_var :: "string \<Rightarrow> string option" \<comment> \<open>\<open>env::var(..).ok()\<close>\<close>
  run_git :: "string list \<Rightarrow> git_output option" \<comment> \<open>\<open>Command::new("git").args(..).output().ok()\<close>\<close>
  regular_file :: "string \<Rightarrow> bytes option" \<comment> \<open>the regular files below the package's directory\<close>
  package_version :: string

definition VERSION_OVERRIDE :: string where "VERSION_OVERRIDE = ''GIT_VERSION''"

text \<open>The function \<open>git\<close>.\<close>

definition git_text :: "build_world \<Rightarrow> string list \<Rightarrow> string option" where
  "git_text B args =
     (case run_git B args of
        None \<Rightarrow> None
      | Some output \<Rightarrow>
          (if \<not> exit_success output then None
           else case ok_of (read_to_string (Inr (stdout output))) of
               None \<Rightarrow> None
             | Some text \<Rightarrow> (let text = trim text in if text \<noteq> [] then Some text else None)))"

definition is_regular :: "build_world \<Rightarrow> string \<Rightarrow> bool" where
  "is_regular B p \<longleftrightarrow> regular_file B p \<noteq> None"

text \<open>\<open>Path::join\<close>: an absolute path replaces the base.\<close>

definition join_path :: "string \<Rightarrow> string \<Rightarrow> string" where
  "join_path base p = (if strip_prefix_char CHR ''/'' p = None then base @ ''/'' @ p else p)"

definition strip_prefix_str :: "string \<Rightarrow> string \<Rightarrow> string option" where
  "strip_prefix_str pre s = (if take (length pre) s = pre then Some (drop (length pre) s) else None)"

definition RERUN :: string where "RERUN = ''cargo:rerun-if-changed=''"

definition track_git_head :: "build_world \<Rightarrow> string list" where
  "track_git_head B =
     (if \<not> is_regular B ''.git/HEAD'' then []
      else [RERUN @ ''.git/HEAD''] @
        (case (case regular_file B ''.git/HEAD'' of
                 None \<Rightarrow> None
               | Some bs \<Rightarrow>
                   (case ok_of (read_to_string (Inr bs)) of
                      None \<Rightarrow> None
                    | Some content \<Rightarrow> strip_prefix_str ''ref: '' (trim content))) of
           None \<Rightarrow> []
         | Some reference \<Rightarrow>
             (let reference = join_path ''.git'' reference
              in if is_regular B reference then [RERUN @ reference] else [])) @
        (if is_regular B ''.git/packed-refs'' then [RERUN @ ''.git/packed-refs''] else []))"

definition version_override :: "build_world \<Rightarrow> string option" where
  "version_override B =
     (case map_option trim (env_var B VERSION_OVERRIDE) of
        Some v \<Rightarrow> if v \<noteq> [] then Some v else None
      | None \<Rightarrow> None)"

definition build_version :: "build_world \<Rightarrow> string" where
  "build_version B =
     (case version_override B of
        Some v \<Rightarrow> v
      | None \<Rightarrow>
     (case git_text B [''describe'', ''--tags'', ''--exact-match''] of
        Some v \<Rightarrow> v
      | None \<Rightarrow>
     (case git_text B [''rev-parse'', ''--short'', ''HEAD''] of
        Some v \<Rightarrow> v
      | None \<Rightarrow> package_version B)))"

text \<open>The script's \<open>main\<close>: the lines it prints.\<close>

definition build_script :: "build_world \<Rightarrow> string list" where
  "build_script B =
     [''cargo:rerun-if-env-changed='' @ VERSION_OVERRIDE] @ track_git_head B @
     [''cargo:rustc-env=BUILD_VERSION='' @ build_version B]"

subsection \<open>What the version may come from\<close>

text \<open>The texts the sources offer, in the order of preference.\<close>

definition git_stdout :: "build_world \<Rightarrow> string list \<Rightarrow> string list" where
  "git_stdout B args =
     (case run_git B args of
        Some output \<Rightarrow>
          if exit_success output \<and> valid_utf8 (stdout output) then [str_of_bytes (stdout output)] else []
      | None \<Rightarrow> [])"

definition version_sources :: "build_world \<Rightarrow> string list" where
  "version_sources B =
     (case env_var B ''GIT_VERSION'' of Some v \<Rightarrow> [v] | None \<Rightarrow> []) @
     git_stdout B [''describe'', ''--tags'', ''--exact-match''] @
     git_stdout B [''rev-parse'', ''--short'', ''HEAD'']"

definition first_text :: "string list \<Rightarrow> string option" where
  "first_text xs = find (\<lambda>v. v \<noteq> []) (map trim xs)"

lemma first_text_append:
  "first_text (xs @ ys) = (case first_text xs of Some v \<Rightarrow> Some v | None \<Rightarrow> first_text ys)"
  by (induction xs) (auto simp: first_text_def)

lemma git_text_stdout: "git_text B args = first_text (git_stdout B args)"
  by (auto simp: git_text_def git_stdout_def first_text_def read_to_string_def Let_def split: option.splits)

lemma version_override_text:
  "version_override B = first_text (case env_var B ''GIT_VERSION'' of Some v \<Rightarrow> [v] | None \<Rightarrow> [])"
  by (auto simp: version_override_def first_text_def VERSION_OVERRIDE_def split: option.splits)

subsection \<open>What is tracked\<close>

definition tracked :: "build_world \<Rightarrow> string set" where
  "tracked B = {p. RERUN @ p \<in> set (track_git_head B)}"

lemma tracked_no_checkout: "\<not> is_regular B ''.git/HEAD'' \<Longrightarrow> track_git_head B = []"
  by (simp add: track_git_head_def)

definition head_reference :: "build_world \<Rightarrow> string option" where
  "head_reference B =
     (case regular_file B ''.git/HEAD'' of
        Some bs \<Rightarrow>
          if valid_utf8 bs then map_option (join_path ''.git'') (strip_prefix_str ''ref: '' (trim (str_of_bytes bs)))
          else None
      | None \<Rightarrow> None)"

lemma track_git_head_reference:
  "track_git_head B =
     (if is_regular B ''.git/HEAD'' then
        [RERUN @ ''.git/HEAD''] @
        (case head_reference B of None \<Rightarrow> [] | Some r \<Rightarrow> if is_regular B r then [RERUN @ r] else []) @
        (if is_regular B ''.git/packed-refs'' then [RERUN @ ''.git/packed-refs''] else [])
      else [])"
  by (auto simp: track_git_head_def head_reference_def read_to_string_def Let_def split: option.splits)

lemma tracked_files:
  "tracked B =
     (if is_regular B ''.git/HEAD'' then
        {p \<in> {''.git/HEAD'', ''.git/packed-refs''} \<union> set_option (head_reference B). is_regular B p}
      else {})"
  unfolding tracked_def track_git_head_reference by (auto split: option.splits if_splits)

section \<open>Properties\<close>

text \<open>
  The embedded version is the first text that is not blank among the override variable, the
  exact tag and the short commit hash, without surrounding white space, and else the package
  version; a command that fails or prints no UTF-8 offers nothing.
\<close>

theorem build_version_precedence:
  "build_version B = (case first_text (version_sources B) of Some v \<Rightarrow> v | None \<Rightarrow> package_version B)"
  by (simp add: build_version_def version_sources_def first_text_append git_text_stdout
      version_override_text split: option.splits)

text \<open>
  C36. The first commit on a branch whose reference is only packed goes unnoticed: the script
  tracks the reference's own file only when that exists, so after it ran in such a checkout, no
  tracked file changes when a commit creates the reference's file, although that file now names
  another commit; a run after it would track it.
\<close>

theorem packed_branch_commit_unnoticed:
  assumes "regular_file B ''.git/HEAD'' = Some head" "valid_utf8 head"
    and "trim (str_of_bytes head) = ''ref: refs/heads/'' @ branch"
    and "regular_file B (''.git/refs/heads/'' @ branch) = None"
    and "B' = B\<lparr>regular_file := (regular_file B)(''.git/refs/heads/'' @ branch \<mapsto> commit)\<rparr>"
  shows "(\<forall>p\<in>tracked B. regular_file B' p = regular_file B p) \<and>
    ''.git/refs/heads/'' @ branch \<notin> tracked B \<and> ''.git/refs/heads/'' @ branch \<in> tracked B'"
proof -
  have ref: "head_reference C = Some (''.git/refs/heads/'' @ branch)"
    if "regular_file C ''.git/HEAD'' = Some head" for C
    using that assms(2,3) by (simp add: head_reference_def strip_prefix_str_def join_path_def)
  from assms(5) have kept: "regular_file B' p = regular_file B p" if "p \<noteq> ''.git/refs/heads/'' @ branch" for p
    using that by simp
  from assms(1) kept [of "''.git/HEAD''"] have head': "regular_file B' ''.git/HEAD'' = Some head" by simp
  have untracked: "''.git/refs/heads/'' @ branch \<notin> tracked B"
    using assms(4) by (simp add: tracked_files is_regular_def)
  note untracked
  moreover have "''.git/refs/heads/'' @ branch \<in> tracked B'"
    using ref [OF head'] head' assms(5) by (simp add: tracked_files is_regular_def)
  moreover have "regular_file B' p = regular_file B p" if "p \<in> tracked B" for p
    using that untracked by (intro kept) metis
  ultimately show ?thesis by simp
qed

text \<open>A checkout of \<open>main\<close> after its references were packed.\<close>

definition packed_checkout :: build_world where
  "packed_checkout =
     \<lparr>env_var = (\<lambda>_. None), run_git = (\<lambda>_. None),
      regular_file = [''.git/HEAD'' \<mapsto> map of_char ''ref: refs/heads/main'' @ [10], ''.git/packed-refs'' \<mapsto> []],
      package_version = ''0.1.1''\<rparr>"

theorem packed_branch_commit_unnoticed_witness:
  "{p \<in> tracked packed_checkout.
      ((regular_file packed_checkout)(''.git/refs/heads/main'' \<mapsto> [97])) p \<noteq> regular_file packed_checkout p} = {} \<and>
   ''.git/refs/heads/main'' \<notin> tracked packed_checkout"
proof -
  let ?head = "map of_char ''ref: refs/heads/main'' @ [10] :: bytes"
  have "regular_file packed_checkout ''.git/HEAD'' = Some ?head" "valid_utf8 ?head"
    "trim (str_of_bytes ?head) = ''ref: refs/heads/'' @ ''main''"
    "regular_file packed_checkout (''.git/refs/heads/'' @ ''main'') = None"
    subgoal by (simp add: packed_checkout_def)
    subgoal by code_simp
    subgoal by code_simp
    subgoal by (simp add: packed_checkout_def)
    done
  from packed_branch_commit_unnoticed [OF this refl, of "[97]"] show ?thesis by simp
qed

end
