(* ===== verification/Listeners.thy ===== *)
theory Listeners
  imports Prelude "HOL-Library.Stream"
begin

text \<open>
  The two listening sockets: \<open>src/metrics_server.rs\<close> (the HTTP endpoint for the metrics) and
  the part of \<open>src/spoa.rs\<close> that opens the SPOE listener. A socket is its observable
  configuration, changed by one call after the other, each of which may fail. Connections, the
  HTTP library, the SPOP library and the Prometheus encoder are parameters.
\<close>

subsection \<open>The SPOE listener\<close>

datatype family = IPv4_Socket | IPv6_Socket

record sock_addr =
  is_ipv4 :: bool
  addr_text :: string

record tcp_socket =
  sock_family :: family
  reuseaddr :: bool
  nodelay :: bool
  bound_to :: "sock_addr option"
  backlog :: "nat option"

text \<open>What the operating system answers: the resolver, and the error of each later call, if any.\<close>

record net =
  lookup_host :: "string \<Rightarrow> string + sock_addr list"
  socket_error :: "family \<Rightarrow> string option"
  reuseaddr_error :: "string option"
  nodelay_error :: "string option"
  bind_error :: "sock_addr \<Rightarrow> string option"
  listen_error :: "string option"

definition LISTEN_BACKLOG :: nat where "LISTEN_BACKLOG = 1024"

datatype bind_failure =
    Resolve_Failed string string
  | Resolved_To_Nothing string
  | Create_Failed string
  | Reuseaddr_Failed string
  | Nodelay_Failed string
  | Bind_Failed string string
  | Listen_Failed string string

text \<open>A call on the socket: its error, or the change it makes.\<close>

definition sock_call :: "string option \<Rightarrow> (string \<Rightarrow> bind_failure) \<Rightarrow> (tcp_socket \<Rightarrow> tcp_socket)
    \<Rightarrow> tcp_socket \<Rightarrow> bind_failure + tcp_socket" where
  "sock_call err why change s = (case err of Some e \<Rightarrow> Err (why e) | None \<Rightarrow> Ok (change s))"

definition new_socket :: "net \<Rightarrow> family \<Rightarrow> bind_failure + tcp_socket" where
  "new_socket W fam =
     (case socket_error W fam of
        Some e \<Rightarrow> Err (Create_Failed e)
      | None \<Rightarrow> Ok \<lparr>sock_family = fam, reuseaddr = False, nodelay = False, bound_to = None, backlog = None\<rparr>)"

definition bind_listener :: "net \<Rightarrow> string \<Rightarrow> bind_failure + tcp_socket" where
  "bind_listener W addr =
     (case lookup_host W addr of
        Inl e \<Rightarrow> Err (Resolve_Failed addr e)
      | Inr [] \<Rightarrow> Err (Resolved_To_Nothing addr)
      | Inr (resolved # _) \<Rightarrow>
          and_then (new_socket W (if is_ipv4 resolved then IPv4_Socket else IPv6_Socket))
            (\<lambda>s. and_then (sock_call (reuseaddr_error W) Reuseaddr_Failed (reuseaddr_update (\<lambda>_. True)) s)
            (\<lambda>s. and_then (sock_call (nodelay_error W) Nodelay_Failed (nodelay_update (\<lambda>_. True)) s)
            (\<lambda>s. and_then (sock_call (bind_error W resolved) (Bind_Failed addr) (bound_to_update (\<lambda>_. Some resolved)) s)
            (\<lambda>s. sock_call (listen_error W) (Listen_Failed addr) (backlog_update (\<lambda>_. Some LISTEN_BACKLOG)) s)))))"

datatype serve_failure = Bind_Error bind_failure | Server_Failed string

text \<open>\<open>serve_listener\<close> runs the library's server on the socket, whose result is \<open>server\<close>.\<close>

definition serve_listener :: "(tcp_socket \<Rightarrow> string + unit) \<Rightarrow> tcp_socket \<Rightarrow> serve_failure + unit" where
  "serve_listener server listener = map_err Server_Failed (server listener)"

definition serve :: "net \<Rightarrow> (tcp_socket \<Rightarrow> string + unit) \<Rightarrow> string \<Rightarrow> serve_failure + unit" where
  "serve W server addr = and_then (map_err Bind_Error (bind_listener W addr)) (serve_listener server)"

subsection \<open>The metrics endpoint\<close>

definition ACCEPT_RETRY_DELAY :: nat where "ACCEPT_RETRY_DELAY = 100"

definition metrics_bind :: "(string \<Rightarrow> string + 'l) \<Rightarrow> string \<Rightarrow> (string \<times> string) + 'l" where
  "metrics_bind tcp_bind addr = map_err (\<lambda>e. (addr, e)) (tcp_bind addr)"

datatype 'c serve_action =
    Spawn_Connection 'c
  | Log_And_Sleep string nat \<comment> \<open>the error, and the pause in milliseconds\<close>

text \<open>One iteration of the loop for what \<open>accept\<close> returned.\<close>

definition accept_step :: "string + 'c \<Rightarrow> 'c serve_action" where
  "accept_step r =
     (case r of Inr c \<Rightarrow> Spawn_Connection c | Inl e \<Rightarrow> Log_And_Sleep e ACCEPT_RETRY_DELAY)"

text \<open>The loop has no exit: from the endless answers of \<open>accept\<close> an endless list of actions.\<close>

primcorec accept_loop :: "(string + 'c) stream \<Rightarrow> 'c serve_action stream" where
  "accept_loop rs = accept_step (shd rs) ## accept_loop (stl rs)"

record ('f, 'h) encoder =
  encode_to_string :: "'f \<Rightarrow> string + string"
  format_type :: 'h
  header_valid :: "'h \<Rightarrow> string option" \<comment> \<open>why the response builder refuses the header\<close>

record 'h http_response =
  status :: nat
  content_type :: 'h
  resp_body :: string

definition metrics_response :: "('f, 'h) encoder \<Rightarrow> 'f \<Rightarrow> string + 'h http_response" where
  "metrics_response E gathered =
     (case encode_to_string E gathered of
        Inl e \<Rightarrow> Err e
      | Inr body \<Rightarrow>
          (case header_valid E (format_type E) of
             Some e \<Rightarrow> Err e
           | None \<Rightarrow> Ok \<lparr>status = 200, content_type = format_type E, resp_body = body\<rparr>))"

subsection \<open>Facts\<close>

text \<open>The errors of the calls in the order the code makes them.\<close>

definition call_failures :: "net \<Rightarrow> string \<Rightarrow> sock_addr \<Rightarrow> bind_failure list" where
  "call_failures W addr a =
     map Create_Failed (case socket_error W (if is_ipv4 a then IPv4_Socket else IPv6_Socket) of None \<Rightarrow> [] | Some e \<Rightarrow> [e]) @
     map Reuseaddr_Failed (case reuseaddr_error W of None \<Rightarrow> [] | Some e \<Rightarrow> [e]) @
     map Nodelay_Failed (case nodelay_error W of None \<Rightarrow> [] | Some e \<Rightarrow> [e]) @
     map (Bind_Failed addr) (case bind_error W a of None \<Rightarrow> [] | Some e \<Rightarrow> [e]) @
     map (Listen_Failed addr) (case listen_error W of None \<Rightarrow> [] | Some e \<Rightarrow> [e])"

lemma snth_accept_loop: "accept_loop rs !! i = accept_step (rs !! i)"
proof (induction i arbitrary: rs)
  case 0
  then show ?case by (subst accept_loop.code) simp
next
  case (Suc i)
  then show ?case by (subst accept_loop.code) simp
qed

section \<open>Properties\<close>

text \<open>
  Opening the SPOE listener: it fails with the first call that fails, and when it succeeds
  the socket has the family of the first address the name resolves to, is bound to exactly that
  address with \<open>SO_REUSEADDR\<close> and \<open>TCP_NODELAY\<close> set, and listens with a backlog of 1024;
  further addresses are never tried.
\<close>

theorem bind_listener_outcome:
  "bind_listener W addr =
     (case lookup_host W addr of
        Inl e \<Rightarrow> Err (Resolve_Failed addr e)
      | Inr [] \<Rightarrow> Err (Resolved_To_Nothing addr)
      | Inr (a # _) \<Rightarrow>
          (case call_failures W addr a of
             e # _ \<Rightarrow> Err e
           | [] \<Rightarrow> Ok \<lparr>sock_family = (if is_ipv4 a then IPv4_Socket else IPv6_Socket), reuseaddr = True,
                       nodelay = True, bound_to = Some a, backlog = Some 1024\<rparr>))"
  by (auto simp: bind_listener_def call_failures_def new_socket_def sock_call_def LISTEN_BACKLOG_def
      split: sum.splits list.splits option.splits)

text \<open>
  The metrics endpoint never stops accepting: whatever \<open>accept\<close> returns, the loop goes
  on; the connection of the i-th accept gets its own task in the i-th iteration, and a failed accept
  costs one pause of 100 ms and nothing else.
\<close>

theorem accept_loop_serves:
  "(accept_loop rs !! i = Spawn_Connection c \<longleftrightarrow> rs !! i = Inr c) \<and>
   (accept_loop rs !! i = Log_And_Sleep e d \<longleftrightarrow> rs !! i = Inl e \<and> d = 100)"
  by (cases "rs !! i") (auto simp: snth_accept_loop accept_step_def ACCEPT_RETRY_DELAY_def)

end
