(* ===== verification/Watcher_Life.thy ===== *)
theory Watcher_Life
  imports Mmdb_Watcher
begin

text \<open>
  The life of a watcher, from the running loop to the end of \<open>MmdbWatcher::stop\<close>, as a step
  relation: the debouncer sends batches over the bounded channel, the task receives them and starts reloads on
  blocking threads, \<open>stop\<close> stops the debouncer, aborts the task and joins it. Aborting a task
  does not cancel the blocking reload it waits for.
\<close>

subsection \<open>State\<close>

datatype task = At_Recv | Awaiting_Reload | Ended

datatype stop_phase = Not_Stopped | Debouncer_Stopped | Aborted | Joined

record 'rd life =
  lf_queue :: "event_batch list" \<comment> \<open>the channel, oldest batch first\<close>
  lf_task :: task
  lf_reload :: "event_batch option" \<comment> \<open>the batch whose reload is running on a blocking thread\<close>
  lf_phase :: stop_phase
  lf_store :: "'rd mmdb"
  lf_events :: "metric_event list"

definition CHANNEL_CAPACITY :: nat where "CHANNEL_CAPACITY = 16"

definition life_init :: "'rd mmdb \<Rightarrow> 'rd life" where
  "life_init st = \<lparr>lf_queue = [], lf_task = At_Recv, lf_reload = None, lf_phase = Not_Stopped,
     lf_store = st, lf_events = []\<rparr>"

text \<open>The batch starts a reload: it is no error and names the file.\<close>

definition starts_reload :: "string \<Rightarrow> event_batch \<Rightarrow> bool" where
  "starts_reload name batch =
     (case batch of Inl _ \<Rightarrow> False | Inr events \<Rightarrow> batch_relevant name events)"

subsection \<open>Steps\<close>

text \<open>
  \<open>deliver\<close> is the debouncer's; \<open>skip\<close>, \<open>start\<close>, \<open>resume\<close> and \<open>closed\<close> are the loop's; a
  reload \<open>finish\<close>es or panics; the last four are those of \<open>stop\<close>, where \<open>cancel\<close> is the task
  noticing the abort at an await.
\<close>

inductive life_step :: "'rd geoip_api \<Rightarrow> path \<Rightarrow> string \<Rightarrow> 'rd life \<Rightarrow> 'rd life \<Rightarrow> bool"
  for G :: "'rd geoip_api" and p :: path and name :: string where
  deliver: "lf_phase s = Not_Stopped \<Longrightarrow> length (lf_queue s) < CHANNEL_CAPACITY \<Longrightarrow>
     life_step G p name s (s\<lparr>lf_queue := lf_queue s @ [batch]\<rparr>)"
| skip: "lf_task s = At_Recv \<Longrightarrow> lf_queue s = batch # rest \<Longrightarrow> \<not> starts_reload name batch \<Longrightarrow>
     life_step G p name s (s\<lparr>lf_queue := rest\<rparr>)"
| start: "lf_task s = At_Recv \<Longrightarrow> lf_queue s = batch # rest \<Longrightarrow> starts_reload name batch \<Longrightarrow>
     life_step G p name s (s\<lparr>lf_queue := rest, lf_task := Awaiting_Reload, lf_reload := Some batch\<rparr>)"
| finish: "lf_reload s = Some batch \<Longrightarrow> watch_step G p name vws batch (lf_store s) = (out, st', evs) \<Longrightarrow>
     life_step G p name s (s\<lparr>lf_reload := None, lf_store := st', lf_events := lf_events s @ evs\<rparr>)"
| panic: "lf_reload s = Some batch \<Longrightarrow> life_step G p name s (s\<lparr>lf_reload := None\<rparr>)"
| resume: "lf_task s = Awaiting_Reload \<Longrightarrow> lf_reload s = None \<Longrightarrow>
     life_step G p name s (s\<lparr>lf_task := At_Recv\<rparr>)"
| closed: "lf_task s = At_Recv \<Longrightarrow> lf_queue s = [] \<Longrightarrow> lf_phase s \<noteq> Not_Stopped \<Longrightarrow>
     life_step G p name s (s\<lparr>lf_task := Ended\<rparr>)"
| stop_debouncer: "lf_phase s = Not_Stopped \<Longrightarrow> life_step G p name s (s\<lparr>lf_phase := Debouncer_Stopped\<rparr>)"
| abort: "lf_phase s = Debouncer_Stopped \<Longrightarrow> life_step G p name s (s\<lparr>lf_phase := Aborted\<rparr>)"
| cancel: "lf_phase s = Aborted \<Longrightarrow> lf_task s \<noteq> Ended \<Longrightarrow> life_step G p name s (s\<lparr>lf_task := Ended\<rparr>)"
| join: "lf_phase s = Aborted \<Longrightarrow> lf_task s = Ended \<Longrightarrow> life_step G p name s (s\<lparr>lf_phase := Joined\<rparr>)"

inductive_cases life_stepE: "life_step G p name s s'"

inductive life_reachable :: "'rd geoip_api \<Rightarrow> path \<Rightarrow> string \<Rightarrow> 'rd mmdb \<Rightarrow> 'rd life \<Rightarrow> bool"
  for G :: "'rd geoip_api" and p :: path and name :: string and st :: "'rd mmdb" where
  init: "life_reachable G p name st (life_init st)"
| step: "life_reachable G p name st s \<Longrightarrow> life_step G p name s s' \<Longrightarrow> life_reachable G p name st s'"

subsection \<open>Invariant\<close>

text \<open>
  At most one reload runs, and only while the task awaits it or after the task was cancelled; the
  task ends only after the debouncer stopped, and has ended when \<open>stop\<close> has returned.
\<close>

definition life_ok :: "'rd life \<Rightarrow> bool" where
  "life_ok s \<longleftrightarrow>
     (lf_task s = At_Recv \<longrightarrow> lf_reload s = None) \<and>
     (lf_task s = Ended \<longrightarrow> lf_phase s \<noteq> Not_Stopped) \<and>
     (lf_phase s = Joined \<longrightarrow> lf_task s = Ended) \<and>
     length (lf_queue s) \<le> CHANNEL_CAPACITY"

lemma life_ok_step: "life_step G p name s s' \<Longrightarrow> life_ok s \<Longrightarrow> life_ok s'"
  by (erule life_stepE) (auto simp: life_ok_def)

lemma life_ok_reachable: "life_reachable G p name st s \<Longrightarrow> life_ok s"
  by (induction rule: life_reachable.induct) (simp add: life_init_def life_ok_def, blast intro: life_ok_step)

subsection \<open>Refinement of the loop\<close>

lemma watch_loop_append:
  "watch_loop G p name (bs @ cs) st =
     (case watch_loop G p name bs st of (outs, st1, evs) \<Rightarrow>
      case watch_loop G p name cs st1 of (outs', st2, evs') \<Rightarrow> (outs @ outs', st2, evs @ evs'))"
proof (induction bs arbitrary: st)
  case (Cons b bs)
  show ?case
    by (cases b) (auto simp: Cons.IH split: prod.splits)
qed (simp split: prod.splits)

lemma reload_started: "life_reachable G p name st s \<Longrightarrow> lf_reload s = Some batch \<Longrightarrow> starts_reload name batch"
  by (induction arbitrary: batch rule: life_reachable.induct) (auto simp: life_init_def elim!: life_stepE)

lemma life_refines_loop:
  assumes "life_reachable G p name st s"
  shows "\<exists>turns. snd (watch_loop G p name turns st) = (lf_store s, lf_events s)"
  using assms
proof induction
  case init
  have "snd (watch_loop G p name [] st) = (lf_store (life_init st), lf_events (life_init st))"
    by (simp add: life_init_def)
  then show ?case by blast
next
  case (step s s')
  then obtain turns where t: "snd (watch_loop G p name turns st) = (lf_store s, lf_events s)" by blast
  from step.hyps(2) show ?case
  proof (cases rule: life_step.cases)
    case (finish batch vws out st' evs)
    with t have "snd (watch_loop G p name (turns @ [(vws, batch)]) st) = (st', lf_events s @ evs)"
      by (cases "watch_loop G p name turns st") (simp add: watch_loop_append)
    with finish show ?thesis by (intro exI [of _ "turns @ [(vws, batch)]"]) simp
  qed (use t in auto)
qed

subsection \<open>After \<open>stop\<close>\<close>

text \<open>Steps left once the debouncer is stopped, at most.\<close>

fun phase_rank :: "stop_phase \<Rightarrow> nat" where
  "phase_rank Not_Stopped = 3"
| "phase_rank Debouncer_Stopped = 2"
| "phase_rank Aborted = 1"
| "phase_rank Joined = 0"

fun task_rank :: "task \<Rightarrow> nat" where
  "task_rank At_Recv = 1"
| "task_rank Awaiting_Reload = 2"
| "task_rank Ended = 0"

lemma task_rank_pos [simp]: "0 < task_rank t \<longleftrightarrow> t \<noteq> Ended"
  by (cases t) simp_all

definition steps_left :: "'rd life \<Rightarrow> nat" where
  "steps_left s = 3 * length (lf_queue s) + task_rank (lf_task s) +
     (if lf_reload s = None then 0 else 1) + phase_rank (lf_phase s)"

lemma step_decreases:
  "life_step G p name s s' \<Longrightarrow> life_ok s \<Longrightarrow> lf_phase s \<noteq> Not_Stopped \<Longrightarrow>
    steps_left s' < steps_left s \<and> lf_phase s' \<noteq> Not_Stopped"
  by (erule life_stepE) (auto simp: steps_left_def life_ok_def)

lemma run_bounded:
  "(life_step G p name ^^ n) s s' \<Longrightarrow> life_ok s \<Longrightarrow> lf_phase s \<noteq> Not_Stopped \<Longrightarrow>
    n + steps_left s' \<le> steps_left s \<and> life_ok s' \<and> lf_phase s' \<noteq> Not_Stopped"
proof (induction n arbitrary: s')
  case (Suc n)
  then obtain t where t: "(life_step G p name ^^ n) s t" "life_step G p name t s'" by auto
  from Suc.IH [OF t(1) Suc.prems(2,3)] step_decreases [OF t(2)] life_ok_step [OF t(2)]
  show ?case by fastforce
qed simp

lemma stuck_joined:
  assumes "life_ok s" "lf_phase s \<noteq> Not_Stopped" "\<nexists>s'. life_step G p name s s'"
  shows "lf_phase s = Joined \<and> lf_task s = Ended \<and> lf_reload s = None"
proof (intro conjI)
  show j: "lf_phase s = Joined"
    using assms by (cases "lf_phase s") (blast intro: life_step.intros)+
  with assms(1) show "lf_task s = Ended" by (simp add: life_ok_def)
  show "lf_reload s = None"
    using assms(3) by (cases "lf_reload s") (blast intro: life_step.panic)+
qed

lemma joined_step:
  "life_step G p name s s' \<Longrightarrow> life_ok s \<Longrightarrow> lf_phase s = Joined \<Longrightarrow>
    (\<exists>batch. lf_reload s = Some batch) \<and> lf_reload s' = None \<and> lf_phase s' = Joined"
  by (erule life_stepE) (auto simp: life_ok_def)

lemma joined_run:
  assumes "(life_step G p name)\<^sup>*\<^sup>* s s'" "life_ok s" "lf_phase s = Joined"
  shows "s' = s \<or> life_step G p name s s' \<and> lf_reload s \<noteq> None \<and> lf_reload s' = None"
  using assms
proof (induction rule: rtranclp_induct)
  case (step t u)
  from step.IH [OF step.prems] consider "t = s" | "life_step G p name s t" "lf_reload t = None"
    by auto
  then show ?case
  proof cases
    case 1
    with step joined_step [of G p name s u] show ?thesis by auto
  next
    case 2
    with step.prems life_ok_step joined_step have "life_ok t" "lf_phase t = Joined" by blast+
    with joined_step [OF step.hyps(2)] 2(2) show ?thesis by auto
  qed
qed simp

section \<open>Properties\<close>


text \<open>
  C26. What \<open>stop\<close> leaves behind: when it has returned, the task has ended, but a reload that was
  running on its blocking thread was not cancelled. Whatever happens then, the store is unchanged
  until this one reload ends, and afterwards it never changes again.
\<close>

theorem stop_bounds_reload:
  assumes "life_reachable G p name st s" "lf_phase s = Joined" "(life_step G p name)\<^sup>*\<^sup>* s s'"
  shows "lf_task s = Ended \<and>
    (case lf_reload s of
       None \<Rightarrow> s' = s
     | Some batch \<Rightarrow>
         s' = s \<or>
         lf_reload s' = None \<and>
         (lf_store s' = lf_store s \<or> (\<exists>vws. lf_store s' = fst (snd (watch_step G p name vws batch (lf_store s))))))"
proof -
  note ok = life_ok_reachable [OF assms(1)]
  from joined_run [OF assms(3) ok assms(2)] consider "s' = s"
    | "life_step G p name s s'" "lf_reload s \<noteq> None" "lf_reload s' = None"
    by auto
  then show ?thesis
  proof cases
    case 1
    with ok assms(2) show ?thesis by (auto simp: life_ok_def split: option.splits)
  next
    case 2
    from 2(1) show ?thesis
    proof (cases rule: life_step.cases)
      case (finish batch vws out st' evs)
      then have "lf_store s' = fst (snd (watch_step G p name vws batch (lf_store s)))" by simp
      then have "\<exists>vws. lf_store s' = fst (snd (watch_step G p name vws batch (lf_store s)))" by (rule exI)
      with 2(3) finish ok assms(2) show ?thesis unfolding life_ok_def by simp
    qed (use 2 ok assms(2) in \<open>auto simp: life_ok_def\<close>)
  qed
qed

text \<open>A run in which \<open>stop\<close> returns while a reload is running.\<close>

definition busy_stop :: "firehol_entry trie life" where
  "busy_stop = \<lparr>lf_queue = [], lf_task = Ended, lf_reload = Some (Inr [[''firehol.mmdb'']]), lf_phase = Joined,
     lf_store = mmdb_new, lf_events = []\<rparr>"

lemma busy_stop_reachable: "life_reachable G [''firehol.mmdb''] ''firehol.mmdb'' mmdb_new busy_stop"
proof -
  let ?p = "[''firehol.mmdb'']" and ?name = "''firehol.mmdb''"
  let ?b = "Inr [?p] :: event_batch"
  let ?s = "\<lambda>q t r ph. \<lparr>lf_queue = q, lf_task = t, lf_reload = r, lf_phase = ph, lf_store = mmdb_new, lf_events = []\<rparr>"
  have relevant: "starts_reload ?name ?b"
    by (simp add: starts_reload_def batch_relevant_def path_file_name_def)
  have "life_step G ?p ?name (life_init mmdb_new) (?s [?b] At_Recv None Not_Stopped)"
    using life_step.deliver [of "life_init mmdb_new" G ?p ?name ?b] by (simp add: life_init_def CHANNEL_CAPACITY_def)
  moreover have "life_step G ?p ?name (?s [?b] At_Recv None Not_Stopped) (?s [] Awaiting_Reload (Some ?b) Not_Stopped)"
    using life_step.start [of "?s [?b] At_Recv None Not_Stopped" ?b "[]" ?name G ?p] relevant by simp
  moreover have "life_step G ?p ?name (?s [] Awaiting_Reload (Some ?b) Not_Stopped) (?s [] Awaiting_Reload (Some ?b) Debouncer_Stopped)"
    using life_step.stop_debouncer [of "?s [] Awaiting_Reload (Some ?b) Not_Stopped" G ?p ?name] by simp
  moreover have "life_step G ?p ?name (?s [] Awaiting_Reload (Some ?b) Debouncer_Stopped) (?s [] Awaiting_Reload (Some ?b) Aborted)"
    using life_step.abort [of "?s [] Awaiting_Reload (Some ?b) Debouncer_Stopped" G ?p ?name] by simp
  moreover have "life_step G ?p ?name (?s [] Awaiting_Reload (Some ?b) Aborted) (?s [] Ended (Some ?b) Aborted)"
    using life_step.cancel [of "?s [] Awaiting_Reload (Some ?b) Aborted" G ?p ?name] by simp
  moreover have "life_step G ?p ?name (?s [] Ended (Some ?b) Aborted) (?s [] Ended (Some ?b) Joined)"
    using life_step.join [of "?s [] Ended (Some ?b) Aborted" G ?p ?name] by simp
  ultimately show ?thesis
    unfolding busy_stop_def by (meson life_reachable.init life_reachable.step)
qed

theorem stop_bounds_reload_witness:
  "lf_phase busy_stop = Joined \<and> lf_task busy_stop = Ended \<and>
   (\<exists>s'. life_step ref_geoip [''firehol.mmdb''] ''firehol.mmdb'' busy_stop s' \<and> lf_store s' \<noteq> lf_store busy_stop)"
proof -
  have "watch_step ref_geoip [''firehol.mmdb''] ''firehol.mmdb'' (view_of (tiny_fs 5), view_of (tiny_fs 5))
      (Inr [[''firehol.mmdb'']]) (lf_store busy_stop) = (Reloaded, \<lparr>snapshot = Some \<lparr>reader = Node (Leaf None) (Leaf (Some default_entry)), modified = Some 5\<rparr>\<rparr>,
      [Set_Gauge MMDB_NODE_COUNT 1, Inc MMDB_FILE_LOADED [''/firehol.mmdb'']])"
    by (simp add: busy_stop_def watch_step_def batch_relevant_def path_file_name_def tiny_reload)
  from life_step.finish [of busy_stop, OF _ this] have
    "life_step ref_geoip [''firehol.mmdb''] ''firehol.mmdb'' busy_stop (busy_stop\<lparr>lf_reload := None,
       lf_store := \<lparr>snapshot = Some \<lparr>reader = Node (Leaf None) (Leaf (Some default_entry)), modified = Some 5\<rparr>\<rparr>,
       lf_events := [Set_Gauge MMDB_NODE_COUNT 1, Inc MMDB_FILE_LOADED [''/firehol.mmdb'']]\<rparr>)"
    by (simp add: busy_stop_def)
  moreover have "lf_phase busy_stop = Joined" by (simp add: busy_stop_def)
  moreover from stop_bounds_reload [OF busy_stop_reachable this rtranclp.rtrancl_refl]
  have "lf_task busy_stop = Ended" by simp
  ultimately show ?thesis by (auto simp: busy_stop_def mmdb_new_def)
qed




end
