(* ===== verification/Load_Lock.thy ===== *)
theory Load_Lock
  imports Mmdb
begin

text \<open>
  The load lock of \<open>mmdb.rs\<close>: any number of threads that each load or reload the database once, under
  \<open>Mmdb::lock\<close>. A thread that panics while it holds the lock poisons it; the next one takes the poisoned
  lock all the same. The file may be seen differently at every step.
\<close>

subsection \<open>Threads\<close>

datatype load_op = Do_Load | Do_Reload

text \<open>A holder has read the file's modification time in the view it keeps.\<close>

datatype thread = Ready load_op | Holding load_op os_view | Done bool | Panicked

record 'rd locked =
  lk_threads :: "thread list"
  lk_holder :: "nat option"
  lk_poisoned :: bool
  lk_store :: "'rd mmdb"
  lk_events :: "metric_event list"

definition locked_init :: "load_op list \<Rightarrow> 'rd mmdb \<Rightarrow> 'rd locked" where
  "locked_init ops st = \<lparr>lk_threads = map Ready ops, lk_holder = None, lk_poisoned = False,
     lk_store = st, lk_events = []\<rparr>"

text \<open>The operation after the lock is taken, and whether it succeeded.\<close>

definition exec ::
  "'rd geoip_api \<Rightarrow> load_op \<Rightarrow> os_view \<Rightarrow> os_view \<Rightarrow> path \<Rightarrow> 'rd mmdb \<Rightarrow> bool \<times> 'rd mmdb \<times> metric_event list" where
  "exec G op vw1 vw2 p st =
     (case op of
        Do_Load \<Rightarrow> (case load G vw1 vw2 p st of (r, st', evs) \<Rightarrow> (is_ok r, st', evs))
      | Do_Reload \<Rightarrow> (case reload_if_changed G vw1 vw2 p st of (r, st', evs) \<Rightarrow> (is_ok r, st', evs)))"

text \<open>
  \<open>acquire\<close> ignores the poison (\<open>PoisonError::into_inner\<close>); the guard is dropped, and the lock freed,
  when the operation returns and when it panics.
\<close>

inductive lock_step :: "'rd geoip_api \<Rightarrow> path \<Rightarrow> os_view \<Rightarrow> 'rd locked \<Rightarrow> 'rd locked \<Rightarrow> bool"
  for G :: "'rd geoip_api" and p :: path and vw :: os_view where
  acquire: "i < length (lk_threads s) \<Longrightarrow> lk_threads s ! i = Ready op \<Longrightarrow> lk_holder s = None \<Longrightarrow>
     lock_step G p vw s (s\<lparr>lk_threads := (lk_threads s)[i := Holding op vw], lk_holder := Some i\<rparr>)"
| release: "i < length (lk_threads s) \<Longrightarrow> lk_threads s ! i = Holding op vw1 \<Longrightarrow>
     exec G op vw1 vw p (lk_store s) = (r, st', evs) \<Longrightarrow>
     lock_step G p vw s (s\<lparr>lk_threads := (lk_threads s)[i := Done r], lk_holder := None,
       lk_store := st', lk_events := lk_events s @ evs\<rparr>)"
| unwind: "i < length (lk_threads s) \<Longrightarrow> lk_threads s ! i = Holding op vw1 \<Longrightarrow>
     lock_step G p vw s (s\<lparr>lk_threads := (lk_threads s)[i := Panicked], lk_holder := None, lk_poisoned := True\<rparr>)"

inductive_cases lock_stepE: "lock_step G p vw s s'"

text \<open>A run: one view of the file per step.\<close>

fun lock_run :: "'rd geoip_api \<Rightarrow> path \<Rightarrow> os_view list \<Rightarrow> 'rd locked \<Rightarrow> 'rd locked \<Rightarrow> bool" where
  "lock_run G p [] s s' \<longleftrightarrow> s' = s"
| "lock_run G p (vw # vws) s s' \<longleftrightarrow> (\<exists>t. lock_step G p vw s t \<and> lock_run G p vws t s')"

subsection \<open>Mutual exclusion and progress\<close>

definition holds :: "thread \<Rightarrow> bool" where
  "holds t \<longleftrightarrow> (\<exists>op vw. t = Holding op vw)"

definition excl :: "'rd locked \<Rightarrow> bool" where
  "excl s \<longleftrightarrow> (\<forall>i<length (lk_threads s). holds (lk_threads s ! i) \<longleftrightarrow> lk_holder s = Some i) \<and>
     (\<forall>i. lk_holder s = Some i \<longrightarrow> i < length (lk_threads s))"

lemma holds_simps [simp]:
  "holds (Holding op vw)" "\<not> holds (Ready op)" "\<not> holds (Done r)" "\<not> holds Panicked"
  by (simp_all add: holds_def)

lemma excl_init: "excl (locked_init ops st)"
  by (simp add: excl_def locked_init_def)

lemma excl_step: "lock_step G p vw s s' \<Longrightarrow> excl s \<Longrightarrow> excl s'"
  by (erule lock_stepE) (auto simp: excl_def nth_list_update split: if_splits)

fun thread_rank :: "thread \<Rightarrow> nat" where
  "thread_rank (Ready op) = 2"
| "thread_rank (Holding op vw) = 1"
| "thread_rank (Done r) = 0"
| "thread_rank Panicked = 0"

definition lock_left :: "'rd locked \<Rightarrow> nat" where
  "lock_left s = sum_list (map thread_rank (lk_threads s))"

lemma sum_list_update_rank:
  "i < length ts \<Longrightarrow> thread_rank t < thread_rank (ts ! i) \<Longrightarrow>
    sum_list (map thread_rank (ts[i := t])) < sum_list (map thread_rank ts)"
proof (induction ts arbitrary: i)
  case (Cons a ts)
  then show ?case by (cases i) auto
qed simp

lemma lock_step_decreases: "lock_step G p vw s s' \<Longrightarrow> lock_left s' < lock_left s"
  by (erule lock_stepE) (auto simp: lock_left_def intro!: sum_list_update_rank)

lemma lock_step_length: "lock_step G p vw s s' \<Longrightarrow> length (lk_threads s') = length (lk_threads s)"
  by (erule lock_stepE) auto

lemma lock_run_inv:
  "lock_run G p vws s s' \<Longrightarrow> excl s \<Longrightarrow>
    excl s' \<and> length vws + lock_left s' \<le> lock_left s \<and> length (lk_threads s') = length (lk_threads s)"
proof (induction vws arbitrary: s)
  case (Cons vw vws)
  then obtain t where t: "lock_step G p vw s t" "lock_run G p vws t s'" by auto
  from Cons.IH [OF t(2) excl_step [OF t(1) Cons.prems(2)]] lock_step_decreases [OF t(1)] lock_step_length [OF t(1)]
  show ?case by simp
qed simp

definition unfinished :: "thread \<Rightarrow> bool" where
  "unfinished t \<longleftrightarrow> (case t of Ready _ \<Rightarrow> True | Holding _ _ \<Rightarrow> True | _ \<Rightarrow> False)"

lemma lock_progress:
  assumes "excl s" "\<exists>t\<in>set (lk_threads s). unfinished t"
  shows "\<exists>s'. lock_step G p vw s s'"
proof (cases "lk_holder s")
  case None
  from assms(2) obtain i where i: "i < length (lk_threads s)" "unfinished (lk_threads s ! i)"
    by (metis in_set_conv_nth)
  with assms(1) None have "\<not> holds (lk_threads s ! i)" by (simp add: excl_def)
  with i(2) obtain op where "lk_threads s ! i = Ready op"
    by (cases "lk_threads s ! i") (auto simp: unfinished_def)
  with i(1) None show ?thesis by (blast intro: lock_step.acquire)
next
  case (Some i)
  with assms(1) have "i < length (lk_threads s)" "holds (lk_threads s ! i)" by (auto simp: excl_def)
  then show ?thesis unfolding holds_def by (blast intro: lock_step.unwind)
qed

subsection \<open>A file at rest is loaded once\<close>

definition rest_inv :: "system_time \<Rightarrow> os_view \<Rightarrow> 'rd locked \<Rightarrow> bool" where
  "rest_inv m vw s \<longleftrightarrow>
     list_all (\<lambda>t. case t of Ready op \<Rightarrow> op = Do_Reload | Holding op vw1 \<Rightarrow> op = Do_Reload \<and> vw1 = vw | _ \<Rightarrow> True)
       (lk_threads s) \<and>
     counter_total MMDB_FILE_LOADED (lk_events s) \<le> 1 \<and>
     (counter_total MMDB_FILE_LOADED (lk_events s) = 1 \<longrightarrow>
        (\<exists>sn. snapshot (lk_store s) = Some sn \<and> modified sn = Some m))"

lemma list_all_update: "list_all P xs \<Longrightarrow> P x \<Longrightarrow> list_all P (xs[i := x])"
  by (auto simp: list_all_iff dest!: set_update_subset_insert [THEN subsetD])

lemma reload_loads:
  assumes "os_modified vw p = Inr m" "reload_if_changed G vw vw p st = (r, st', evs)"
  shows "counter_total MMDB_FILE_LOADED evs = (if r = Inr True then 1 else 0) \<and>
    (r = Inr True \<longrightarrow> (\<forall>sn. snapshot st = Some sn \<longrightarrow> modified sn \<noteq> Some m) \<and>
       (\<exists>sn. snapshot st' = Some sn \<and> modified sn = Some m)) \<and>
    (r \<noteq> Inr True \<longrightarrow> st' = st)"
  using assms
  by (auto simp: reload_if_changed_def load_locked_def metric_defs
      split: sum.splits if_splits prod.splits option.splits)

lemma rest_inv_step:
  assumes "lock_step G p vw s s'" "os_modified vw p = Inr m" "rest_inv m vw s"
  shows "rest_inv m vw s'"
  using assms(1)
proof (cases rule: lock_step.cases)
  case (acquire i op)
  with assms(3) have "op = Do_Reload" by (fastforce simp: rest_inv_def list_all_length)
  with acquire assms(3) show ?thesis by (auto simp: rest_inv_def intro: list_all_update)
next
  case (release i op vw1 r st' evs)
  with assms(3) have "op = Do_Reload" "vw1 = vw" by (fastforce simp: rest_inv_def list_all_length)+
  with release(4) obtain res where reload: "reload_if_changed G vw vw p (lk_store s) = (res, st', evs)"
    by (auto simp: exec_def split: prod.splits)
  from reload_loads [OF assms(2) this] release assms(3) show ?thesis
    by (auto simp: rest_inv_def intro: list_all_update split: if_splits)
next
  case (unwind i op vw1)
  with assms(3) show ?thesis by (auto simp: rest_inv_def intro: list_all_update)
qed

section \<open>Properties\<close>



text \<open>Two threads, the first of which panics with the lock held.\<close>

definition poisoned_run :: "firehol_entry trie locked" where
  "poisoned_run = \<lparr>lk_threads = [Panicked, Done True], lk_holder = None, lk_poisoned = True,
     lk_store = \<lparr>snapshot = Some \<lparr>reader = Node (Leaf None) (Leaf (Some default_entry)), modified = Some 5\<rparr>\<rparr>,
     lk_events = [Set_Gauge MMDB_NODE_COUNT 1, Inc MMDB_FILE_LOADED [''/firehol.mmdb'']]\<rparr>"

lemma poisoned_run_runs:
  "lock_run ref_geoip [''firehol.mmdb''] (replicate 4 (view_of (tiny_fs 5)))
     (locked_init [Do_Reload, Do_Reload] mmdb_new) poisoned_run"
proof -
  let ?v = "view_of (tiny_fs 5)" and ?p = "[''firehol.mmdb'']"
  let ?s = "\<lambda>ts h x. \<lparr>lk_threads = ts, lk_holder = h, lk_poisoned = x, lk_store = mmdb_new, lk_events = []\<rparr>"
  have "lock_step ref_geoip ?p ?v (?s [Ready Do_Reload, Ready Do_Reload] None False)
      (?s [Holding Do_Reload ?v, Ready Do_Reload] (Some 0) False)"
    using lock_step.acquire [of 0 "?s [Ready Do_Reload, Ready Do_Reload] None False" Do_Reload ref_geoip ?p ?v] by simp
  moreover have "lock_step ref_geoip ?p ?v (?s [Holding Do_Reload ?v, Ready Do_Reload] (Some 0) False)
      (?s [Panicked, Ready Do_Reload] None True)"
    using lock_step.unwind [of 0 "?s [Holding Do_Reload ?v, Ready Do_Reload] (Some 0) False" Do_Reload ?v ref_geoip ?p ?v] by simp
  moreover have "lock_step ref_geoip ?p ?v (?s [Panicked, Ready Do_Reload] None True)
      (?s [Panicked, Holding Do_Reload ?v] (Some 1) True)"
    using lock_step.acquire [of 1 "?s [Panicked, Ready Do_Reload] None True" Do_Reload ref_geoip ?p ?v] by simp
  moreover have "lock_step ref_geoip ?p ?v (?s [Panicked, Holding Do_Reload ?v] (Some 1) True) poisoned_run"
    using lock_step.release [of 1 "?s [Panicked, Holding Do_Reload ?v] (Some 1) True" Do_Reload ?v ref_geoip ?v ?p]
    by (simp add: exec_def tiny_reload poisoned_run_def)
  ultimately show ?thesis by (auto simp: numeral_eq_Suc locked_init_def)
qed



end
