(* ===== verification/Display.thy ===== *)
theory Display
  imports Net_Addr Complex_Main
begin

text \<open>
  \<open>src/display.rs\<close>: the \<open>Display\<close> helpers of the log messages: integers with
  their digits in groups of three, byte counts with a binary unit and Unix timestamps. The
  formatter is a string, so writing to it does not fail. The calendar of \<open>chrono\<close> is a
  parameter; 64-bit floating point is exact rational arithmetic with the one rounding step the
  code makes (the conversion from \<open>u64\<close>), since dividing by 1024 only changes the exponent.
\<close>

subsection \<open>Decimal numerals\<close>

fun show_nat :: "nat \<Rightarrow> string" where
  "show_nat n = (if n < 10 then [digit n] else show_nat (n div 10) @ [digit (n mod 10)])"

declare show_nat.simps [simp del]

definition show_int :: "int \<Rightarrow> string" where
  "show_int i = (if i < 0 then CHR ''-'' # show_nat (nat (- i)) else show_nat (nat i))"

text \<open>The value of a string of digits.\<close>

definition nat_of_digits :: "string \<Rightarrow> nat" where
  "nat_of_digits = foldl (\<lambda>n c. 10 * n + (of_char c - 48)) 0"

definition is_digit :: "char \<Rightarrow> bool" where
  "is_digit c \<longleftrightarrow> (let n = of_char c :: nat in 48 \<le> n \<and> n < 58)"

subsection \<open>\<open>HumanCount\<close>\<close>

datatype human_count = HumanCount (count_of: u64)

definition human_count_from_u32 :: "u32 \<Rightarrow> human_count" where
  "human_count_from_u32 value = HumanCount (ucast value)"

definition human_count_from_usize :: "64 word \<Rightarrow> human_count" where
  "human_count_from_usize value = HumanCount value"

text \<open>
  The digit loop on the 20-byte buffer; \<open>None\<close> is the panic of an index that runs below zero
  or off the buffer.
\<close>

function digit_loop :: "bytes \<Rightarrow> u64 \<Rightarrow> nat \<Rightarrow> (bytes \<times> nat) option" where
  "digit_loop digits value start =
     (if start = 0 \<or> length digits < start then None
      else let start' = start - 1;
               digits' = digits[start' := 48 + ucast (value mod 10)];
               value' = value div 10
           in if value' = 0 then Some (digits', start') else digit_loop digits' value' start')"
  by pat_completeness auto
termination
  by (relation "measure (\<lambda>(digits, value, start). start)") auto

declare digit_loop.simps [simp del]

text \<open>The loop that writes the digits, with a space before every group of three but the first.\<close>

fun write_digits :: "nat \<Rightarrow> nat \<Rightarrow> bytes \<Rightarrow> string" where
  "write_digits len index [] = []"
| "write_digits len index (d # ds) =
     (if 0 < index \<and> (len - index) mod 3 = 0 then [CHR '' ''] else []) @
     char_of (unat d) # write_digits len (index + 1) ds"

definition human_count_fmt :: "human_count \<Rightarrow> string option" where
  "human_count_fmt h =
     (case digit_loop (replicate 20 0) (count_of h) 20 of
        None \<Rightarrow> None
      | Some (buffer, start) \<Rightarrow>
          (let digits = drop start buffer in Some (write_digits (length digits) 0 digits)))"

subsection \<open>\<open>HumanSize\<close>\<close>

datatype human_size = HumanSize (size_of: u64)

definition UNITS :: "string list" where "UNITS = [''B'', ''KB'', ''MB'', ''GB'', ''TB'']"

text \<open>
  Rounding a quotient to the nearest integer, halves to the even one.
\<close>

definition round_even :: "nat \<Rightarrow> nat \<Rightarrow> nat" where
  "round_even a b =
     (let q = a div b; r = 2 * (a mod b)
      in if r < b \<or> r = b \<and> even q then q else q + 1)"

text \<open>\<open>self.0 as f64\<close>: 53 significant bits.\<close>

fun excess_bits :: "nat \<Rightarrow> nat" where
  "excess_bits n = (if n < 2 ^ 53 then 0 else Suc (excess_bits (n div 2)))"

declare excess_bits.simps [simp del]

definition as_f64 :: "u64 \<Rightarrow> rat" where
  "as_f64 n = (let e = excess_bits (unat n) in of_nat (round_even (unat n) (2 ^ e) * 2 ^ e))"

function unit_loop :: "rat \<Rightarrow> nat \<Rightarrow> rat \<times> nat" where
  "unit_loop size' unit =
     (if 1024 \<le> size' \<and> unit < length UNITS - 1 then unit_loop (size' / 1024) (unit + 1)
      else (size', unit))"
  by pat_completeness auto
termination
  by (relation "measure (\<lambda>(size', unit). length UNITS - unit)") auto

declare unit_loop.simps [simp del]

text \<open>\<open>{:.2}\<close>: the nearest decimal with two places, halves to the even one.\<close>

definition fixed2 :: "rat \<Rightarrow> string" where
  "fixed2 x =
     (let (a, b) = quotient_of (100 * x); cents = round_even (nat a) (nat b)
      in show_nat (cents div 100) @ ''.'' @ [digit (cents div 10 mod 10), digit (cents mod 10)])"

definition human_size_fmt :: "human_size \<Rightarrow> string option" where
  "human_size_fmt h =
     (case unit_loop (as_f64 (size_of h)) 0 of
        (size', unit) \<Rightarrow>
          (if unit < length UNITS then Some (fixed2 size' @ '' '' @ UNITS ! unit) else None))"

subsection \<open>\<open>EpochSeconds\<close>\<close>

text \<open>\<open>DateTime::from_timestamp\<close> and the \<open>format\<close> of a date, as the code calls them.\<close>

record 'd calendar =
  from_timestamp :: "int \<Rightarrow> 'd option"
  format_date :: "'d \<Rightarrow> string \<Rightarrow> string"

datatype epoch_seconds = EpochSeconds (seconds_of: int)

definition epoch_seconds_from_u64 :: "u64 \<Rightarrow> epoch_seconds" where
  "epoch_seconds_from_u64 value =
     EpochSeconds (if uint value \<le> i64_max then uint value else i64_max)"

definition epoch_seconds_fmt :: "'d calendar \<Rightarrow> epoch_seconds \<Rightarrow> string" where
  "epoch_seconds_fmt D e =
     (case from_timestamp D (seconds_of e) of
        Some datetime \<Rightarrow> format_date D datetime ''%Y-%m-%d %H:%M:%S''
      | None \<Rightarrow> ''invalid epoch '' @ show_int (seconds_of e))"


subsection \<open>Numerals and their values\<close>

lemma of_char_digit [simp]: "d < 10 \<Longrightarrow> of_char (digit d) = 48 + d"
  by (simp add: digit_def)

lemma is_digit_digit [simp]: "d < 10 \<Longrightarrow> is_digit (digit d)"
  by (simp add: is_digit_def Let_def)

lemma nat_of_digits_simps [simp]:
  "nat_of_digits [] = 0"
  "nat_of_digits (cs @ [c]) = 10 * nat_of_digits cs + (of_char c - 48)"
  by (simp_all add: nat_of_digits_def)

lemma nat_of_digits_single [simp]: "nat_of_digits [c] = of_char c - 48"
  using nat_of_digits_simps(2) [of "[]"] by simp

lemma show_nat_value [simp]: "nat_of_digits (show_nat n) = n"
  by (induction n rule: show_nat.induct) (subst show_nat.simps, simp)

lemma show_nat_digits [simp]: "list_all is_digit (show_nat n)"
  by (induction n rule: show_nat.induct) (subst show_nat.simps, simp)

lemma show_nat_not_Nil [simp]: "show_nat n \<noteq> []"
  by (subst show_nat.simps) simp

lemma hd_show_nat: "hd (show_nat n) = digit 0 \<longleftrightarrow> n = 0"
proof (induction n rule: show_nat.induct)
  case (1 n)
  show ?case
  proof (cases "n < 10")
    case True
    then show ?thesis by (subst show_nat.simps) (simp add: digit_zero digit_eq_zero_iff)
  next
    case False
    with 1 show ?thesis by (subst show_nat.simps) simp
  qed
qed

text \<open>The buffer holds the numeral, right-aligned, whenever it is large enough.\<close>

lemma digit_byte: "char_of (unat (48 + ucast (v mod 10) :: u8)) = digit (unat (v mod 10 :: u64))"
proof -
  have "unat (v mod 10) < 10" by (simp add: unat_mod_distrib)
  then have "unat (48 + ucast (v mod 10) :: u8) = 48 + unat (v mod 10)"
    by (simp add: unat_word_ariths unsigned_ucast_eq take_bit_eq_mod)
  then show ?thesis by (simp add: digit_def)
qed

lemma digit_loop_numeral:
  assumes "start \<le> length digits" "unat v < 10 ^ start" "0 < start"
  shows "\<exists>digits' start'. digit_loop digits v start = Some (digits', start') \<and>
    start' < start \<and> length digits' = length digits \<and>
    map (\<lambda>d. char_of (unat d)) (drop start' digits') =
      show_nat (unat v) @ map (\<lambda>d. char_of (unat d)) (drop start digits)"
  using assms
proof (induction digits v start rule: digit_loop.induct)
  case (1 digits v start)
  let ?d = "48 + ucast (v mod 10) :: u8"
  let ?ds = "digits[start - 1 := ?d]"
  have at: "drop (start - 1) ?ds = ?d # drop start digits"
    using 1(2,4) by (simp add: Cons_nth_drop_Suc [symmetric])
  have last: "unat (v mod 10) = unat v mod 10" by (simp add: unat_mod_distrib)
  have rest: "unat (v div 10) = unat v div 10" by (simp add: unat_div_distrib)
  show ?case
  proof (cases "v div 10 = 0")
    case True
    then have "unat v div 10 = 0" by (metis rest unat_0)
    then have small: "unat v < 10" by simp
    with True 1(2,4) at show ?thesis
      by (subst digit_loop.simps, subst show_nat.simps) (simp add: Let_def digit_byte last)
  next
    case False
    then have "unat v div 10 \<noteq> 0" by (metis rest unat_eq_0)
    then have big: "\<not> unat v < 10" by simp
    with 1(3,4) have pos: "0 < start - 1" by (cases "start = 1") auto
    have "unat (v div 10) < 10 ^ (start - 1)"
      using 1(3,4) by (cases start) (auto simp: rest less_mult_imp_div_less mult.commute)
    with 1 False pos obtain digits' start' where
      "digit_loop ?ds (v div 10) (start - 1) = Some (digits', start')" "start' < start - 1"
      "length digits' = length digits"
      "map (\<lambda>d. char_of (unat d)) (drop start' digits') =
         show_nat (unat v div 10) @ map (\<lambda>d. char_of (unat d)) (drop (start - 1) ?ds)"
      by (fastforce simp: rest)
    with False 1(2,4) big at show ?thesis
      by (subst digit_loop.simps, subst show_nat.simps) (simp add: Let_def digit_byte last)
  qed
qed

subsection \<open>Grouping\<close>

fun threes :: "'a list \<Rightarrow> 'a list list" where
  "threes (a # b # c # xs) = [a, b, c] # threes xs"
| "threes xs = (if xs = [] then [] else [xs])"

lemma concat_threes [simp]: "concat (threes xs) = xs"
  by (induction xs rule: threes.induct) auto

lemma length_threes: "length xs mod 3 = 0 \<Longrightarrow> list_all (\<lambda>g. length g = 3) (threes xs)"
  by (induction xs rule: threes.induct) (auto simp: mod_Suc split: if_splits)

lemma map_threes: "threes (map f xs) = map (map f) (threes xs)"
  by (induction xs rule: threes.induct) auto

abbreviation chars :: "bytes \<Rightarrow> string" where "chars \<equiv> map (\<lambda>d. char_of (unat d))"

lemma write_digits_append:
  "write_digits len index (xs @ ys) = write_digits len index xs @ write_digits len (index + length xs) ys"
  by (induction xs arbitrary: index) auto

lemma write_digits_threes:
  "0 < index \<Longrightarrow> length ds mod 3 = 0 \<Longrightarrow>
    write_digits (index + length ds) index ds = concat (map ((#) CHR '' '') (threes (chars ds)))"
proof (induction ds arbitrary: index rule: threes.induct)
  case (1 a b c xs)
  from 1(3) have "length xs mod 3 = 0" by (simp add: mod_Suc split: if_splits)
  with 1(1) [of "Suc (Suc (Suc index))"] 1(2) show ?case by (simp add: mod_Suc)
qed (auto simp: mod_Suc split: if_splits)

text \<open>The groups: a first one of one to three digits, then groups of three.\<close>

definition first_group :: "nat \<Rightarrow> nat" where "first_group n = (n - 1) mod 3 + 1"

lemma first_group_le: "0 < n \<Longrightarrow> first_group n \<le> n"
  unfolding first_group_def using mod_less_eq_dividend [of "n - 1" 3] by linarith

lemma first_group_rest: "0 < n \<Longrightarrow> (n - first_group n) mod 3 = 0"
  by (cases n) (simp_all add: first_group_def mod_eq_0_iff_dvd dvd_minus_mod)

lemma write_digits_first:
  assumes "xs \<noteq> []" "length xs \<le> 3" "m mod 3 = 0"
  shows "write_digits (length xs + m) 0 xs = chars xs"
proof -
  from assms(1,2) consider a where "xs = [a]" | a b where "xs = [a, b]" | a b c where "xs = [a, b, c]"
    by (cases xs rule: threes.cases) auto
  then show ?thesis using assms(3) by cases (auto simp: mod_Suc split: if_splits)
qed

lemma write_digits_groups:
  assumes "ds \<noteq> []"
  defines "k \<equiv> first_group (length ds)"
  shows "write_digits (length ds) 0 ds =
    take k (chars ds) @ concat (map ((#) CHR '' '') (threes (drop k (chars ds))))"
proof -
  from assms have k: "0 < k" "k \<le> length ds" "k \<le> 3" "(length ds - k) mod 3 = 0"
    using first_group_le [of "length ds"] first_group_rest [of "length ds"]
    by (auto simp: first_group_def)
  then have len: "length ds = length (take k ds) + (length ds - k)" by simp
  have "write_digits (length ds) 0 ds =
      write_digits (length ds) 0 (take k ds) @ write_digits (length ds) k (drop k ds)"
    using write_digits_append [of "length ds" 0 "take k ds" "drop k ds"] k by simp
  moreover have "write_digits (length ds) 0 (take k ds) = chars (take k ds)"
    by (subst len, rule write_digits_first) (use k in auto)
  moreover have "write_digits (length ds) k (drop k ds) =
      concat (map ((#) CHR '' '') (threes (chars (drop k ds))))"
    using write_digits_threes [of k "drop k ds"] k by simp
  ultimately show ?thesis by (simp add: take_map drop_map)
qed

text \<open>The count's text: its numeral, cut into groups.\<close>

lemma human_count_numeral:
  "human_count_fmt (HumanCount n) =
     (let s = show_nat (unat n); k = first_group (length s)
      in Some (take k s @ concat (map ((#) CHR '' '') (threes (drop k s)))))"
proof -
  have "unat n < 10 ^ 20" using unsigned_less [of n, where ?'a = nat] by simp
  then obtain buffer start where loop: "digit_loop (replicate 20 0) n 20 = Some (buffer, start)"
    and numeral: "chars (drop start buffer) = show_nat (unat n)"
    using digit_loop_numeral [of 20 "replicate 20 0" n] by auto
  from numeral show_nat_not_Nil [of "unat n"] have "drop start buffer \<noteq> []" by fastforce
  moreover have "length buffer - start = length (show_nat (unat n))"
    using arg_cong [OF numeral, of length] by simp
  ultimately show ?thesis
    using write_digits_groups [of "drop start buffer"] numeral by (simp add: human_count_fmt_def loop Let_def)
qed

subsection \<open>Units and rounding\<close>

lemma round_even_bounds:
  assumes "0 < b"
  shows "2 * a \<le> 2 * (b * round_even a b) + b" "2 * (b * round_even a b) \<le> 2 * a + b"
proof -
  have r: "a mod b < b" "b * (a div b) + a mod b = a" using assms by simp_all
  have "round_even a b = a div b \<and> 2 * (a mod b) \<le> b \<or>
      round_even a b = a div b + 1 \<and> b \<le> 2 * (a mod b)"
    by (auto simp: round_even_def Let_def)
  then have "b * round_even a b = b * (a div b) \<and> 2 * (a mod b) \<le> b \<or>
      b * round_even a b = b * (a div b) + b \<and> b \<le> 2 * (a mod b)"
    by (auto simp: algebra_simps)
  with r show "2 * a \<le> 2 * (b * round_even a b) + b" "2 * (b * round_even a b) \<le> 2 * a + b"
    by linarith+
qed

lemma abs_diff_half:
  assumes "2 * a \<le> 2 * c + b" "2 * c \<le> 2 * a + (b :: nat)"
  shows "\<bar>of_nat c - of_nat a\<bar> \<le> (of_nat b / 2 :: rat)"
proof -
  from assms have "of_nat (2 * a) \<le> (of_nat (2 * c + b) :: rat)" "of_nat (2 * c) \<le> (of_nat (2 * a + b) :: rat)"
    by (simp_all only: of_nat_le_iff)
  then show ?thesis unfolding abs_le_iff by (simp add: field_simps)
qed

lemma excess_bits_high: "excess_bits n = Suc e \<Longrightarrow> 2 ^ 53 * 2 ^ e \<le> n"
proof (induction n arbitrary: e rule: excess_bits.induct)
  case (1 n)
  from 1(2) have big: "\<not> n < 2 ^ 53" "excess_bits (n div 2) = e"
    by (subst (asm) excess_bits.simps, simp split: if_splits)+
  show ?case
  proof (cases e)
    case 0
    with big show ?thesis by simp
  next
    case (Suc d)
    with 1(1) [OF big(1), of d] big(2) have "2 ^ 53 * 2 ^ d \<le> n div 2" by simp
    then have "2 ^ 53 * 2 ^ d * 2 \<le> n div 2 * 2" by (rule mult_le_mono1)
    also have "\<dots> \<le> n" by simp
    finally show ?thesis using Suc by (simp add: mult.assoc mult.commute)
  qed
qed

text \<open>The conversion to \<open>f64\<close> is off by at most one part in \<open>2\<^sup>53\<close>.\<close>

lemma round_53_error:
  "\<bar>of_nat (round_even m (2 ^ excess_bits m) * 2 ^ excess_bits m) - rat_of_nat m\<bar> * 2 ^ 53 \<le> of_nat m"
proof (cases "excess_bits m")
  case 0
  then show ?thesis by (simp add: round_even_def)
next
  case (Suc e)
  let ?b = "2 ^ Suc e :: nat"
  have "\<bar>of_nat (?b * round_even m ?b) - of_nat m\<bar> \<le> (of_nat ?b / 2 :: rat)"
    by (rule abs_diff_half) (rule round_even_bounds, simp)+
  then have "\<bar>of_nat (round_even m ?b * ?b) - rat_of_nat m\<bar> \<le> 2 ^ e" by (simp add: mult.commute)
  then have "\<bar>of_nat (round_even m ?b * ?b) - rat_of_nat m\<bar> * 2 ^ 53 \<le> 2 ^ e * 2 ^ 53"
    by (rule mult_right_mono) simp
  also have "\<dots> = of_nat (2 ^ 53 * 2 ^ e)" by simp
  also have "\<dots> \<le> of_nat m" using excess_bits_high [OF Suc] by (simp only: of_nat_le_iff)
  finally show ?thesis by (simp only: Suc)
qed

lemma as_f64_error: "\<bar>as_f64 n - of_nat (unat n)\<bar> * 2 ^ 53 \<le> of_nat (unat n)"
  unfolding as_f64_def Let_def by (rule round_53_error)

lemma length_UNITS [simp]: "length UNITS = 5"
  by (simp add: UNITS_def)

lemma unit_loop_result:
  assumes "unit_loop x u = (y, k)" "u \<le> 4"
  shows "u \<le> k \<and> k \<le> 4 \<and> x = y * 1024 ^ (k - u) \<and> (k = 4 \<or> y < 1024) \<and> (u = k \<or> 1 \<le> y)"
  using assms
proof (induction x u rule: unit_loop.induct)
  case (1 x u)
  show ?case
  proof (cases "1024 \<le> x \<and> u < 4")
    case True
    with 1 have IH: "u + 1 \<le> k \<and> k \<le> 4 \<and> x / 1024 = y * 1024 ^ (k - (u + 1)) \<and>
        (k = 4 \<or> y < 1024) \<and> (u + 1 = k \<or> 1 \<le> y)"
      by (subst (asm) unit_loop.simps) simp
    have "k - u = Suc (k - (u + 1))" using IH by linarith
    with IH True have "x = y * 1024 ^ (k - u)" by simp
    moreover have "1 \<le> y" using IH True by (cases "u + 1 = k") auto
    ultimately show ?thesis using IH by simp
  next
    case False
    with 1(2,3) show ?thesis by (subst (asm) unit_loop.simps) (auto split: if_splits)
  qed
qed

definition show_cents :: "nat \<Rightarrow> string" where
  "show_cents c = show_nat (c div 100) @ ''.'' @ [digit (c div 10 mod 10), digit (c mod 10)]"

lemma fixed2_nearest:
  assumes "0 \<le> x"
  shows "\<exists>c. fixed2 x = show_cents c \<and> \<bar>of_nat c - 100 * x\<bar> \<le> 1 / 2"
proof -
  obtain a b where q: "quotient_of (100 * x) = (a, b)" by (cases "quotient_of (100 * x)")
  then have b: "0 < b" by (rule quotient_of_denom_pos)
  have x: "100 * x = of_int a / of_int b" by (rule quotient_of_div [OF q])
  with assms b have a: "0 \<le> a" by (metis mult_nonneg_nonneg of_int_0_le_iff of_int_pos zero_le_divide_iff
        zero_le_numeral not_less)
  let ?c = "round_even (nat a) (nat b)"
  have "\<bar>of_nat (nat b * ?c) - of_nat (nat a)\<bar> \<le> (of_nat (nat b) / 2 :: rat)"
    by (rule abs_diff_half) (rule round_even_bounds, use b in simp)+
  with a b have "\<bar>of_int b * of_nat ?c - of_int a\<bar> \<le> (of_int b / 2 :: rat)" by simp
  then have "\<bar>of_nat ?c - of_int a / of_int b\<bar> \<le> (1 / 2 :: rat)"
    using b by (simp add: field_simps abs_le_iff)
  with x q show ?thesis by (intro exI [of _ ?c]) (simp add: fixed2_def show_cents_def Let_def)
qed

text \<open>The same digits from any fraction, reduced or not.\<close>

lemma round_even_scale: "0 < k \<Longrightarrow> round_even (k * a) (k * b) = round_even a b"
  by (simp add: round_even_def Let_def mult.left_commute [of 2])

lemma fixed2_fraction:
  assumes "0 < b"
  shows "fixed2 (of_nat a / of_nat b) = show_cents (round_even (100 * a) b)"
proof -
  obtain p q where pq: "quotient_of (100 * (of_nat a / of_nat b)) = (p, q)" by fastforce
  note q = quotient_of_denom_pos [OF pq] and cop = quotient_of_coprime [OF pq]
  from quotient_of_div [OF pq] q assms have eq: "of_int (int (100 * a) * q) = (of_int (p * int b) :: rat)"
    by (simp add: field_simps)
  then have eq: "int (100 * a) * q = p * int b" by (simp only: of_int_eq_iff)
  with cop have "q dvd int b" by (metis coprime_commute coprime_dvd_mult_right_iff dvd_triv_right)
  then obtain k where k: "int b = q * k" by blast
  with assms q have "0 < k" by (metis of_nat_0_less_iff zero_less_mult_pos)
  from eq k q have "int (100 * a) = p * k" by auto
  with \<open>0 < k\<close> have "0 \<le> p" by (metis of_nat_0_le_iff zero_le_mult_iff less_le_not_le)
  have "100 * a = nat k * nat p" "b = nat k * nat q"
    using \<open>int (100 * a) = p * k\<close> k \<open>0 < k\<close> \<open>0 \<le> p\<close> q
    by (metis nat_int nat_mult_distrib mult.commute less_imp_le)+
  with \<open>0 < k\<close> have "round_even (100 * a) b = round_even (nat p) (nat q)" by (simp only: round_even_scale zero_less_nat_eq)
  with pq show ?thesis by (simp add: fixed2_def show_cents_def Let_def)
qed

lemma digit_chars:
  "digit 0 = CHR ''0''" "digit (Suc 0) = CHR ''1''" "digit 1 = CHR ''1''" "digit 2 = CHR ''2''" "digit 3 = CHR ''3''"
  "digit 4 = CHR ''4''" "digit 5 = CHR ''5''" "digit 6 = CHR ''6''" "digit 7 = CHR ''7''"
  "digit 8 = CHR ''8''" "digit 9 = CHR ''9''"
  by code_simp+

lemmas numeral_text = show_cents_def round_even_def show_nat.simps digit_chars UNITS_def Let_def

lemma human_size_fmt_fraction:
  assumes "unit_loop (as_f64 n) 0 = (of_nat a / of_nat b, k)" "0 < b" "k < 5"
  shows "human_size_fmt (HumanSize n) = Some (show_cents (round_even (100 * a) b) @ '' '' @ UNITS ! k)"
  using assms by (simp add: human_size_fmt_def fixed2_fraction)

section \<open>Properties\<close>

text \<open>
  C34. Counts: for every 64-bit integer the digit loop stays inside its buffer, and the text is the
  integer's decimal numeral, without leading zeros, cut into a first group of one to three digits
  and groups of exactly three, with one space between groups; without the spaces it reads back as
  the integer.
\<close>

theorem human_count_groups:
  "\<exists>g gs. human_count_fmt (HumanCount n) = Some (g @ concat (map ((#) CHR '' '') gs)) \<and>
     g @ concat gs = show_nat (unat n) \<and> nat_of_digits (g @ concat gs) = unat n \<and>
     list_all is_digit (g @ concat gs) \<and> (hd (g @ concat gs) = CHR ''0'' \<longleftrightarrow> n = 0) \<and>
     g \<noteq> [] \<and> length g \<le> 3 \<and> list_all (\<lambda>g. length g = 3) gs"
proof -
  define s where "s = show_nat (unat n)"
  define k where "k = first_group (length s)"
  have s: "s \<noteq> []" by (simp add: s_def)
  then have k: "0 < k" "k \<le> 3" "k \<le> length s" "(length s - k) mod 3 = 0"
    using first_group_le [of "length s"] first_group_rest [of "length s"]
    by (auto simp: k_def first_group_def)
  have "human_count_fmt (HumanCount n) = Some (take k s @ concat (map ((#) CHR '' '') (threes (drop k s))))"
    by (simp add: human_count_numeral Let_def s_def k_def)
  moreover have "take k s \<noteq> []" "length (take k s) \<le> 3"
    using k s by auto
  moreover have "list_all (\<lambda>g. length g = 3) (threes (drop k s))"
    using k by (intro length_threes) simp
  moreover have "take k s @ concat (threes (drop k s)) = show_nat (unat n)"
    by (simp add: s_def)
  moreover have "hd (show_nat (unat n)) = CHR ''0'' \<longleftrightarrow> n = 0"
    using hd_show_nat [of "unat n"] by (simp add: digit_zero unat_eq_0)
  ultimately show ?thesis by (metis show_nat_digits show_nat_value)
qed

text \<open>
  C35. Sizes: the unit is the largest of the five that leaves at least one unit (bytes below 1024
  stay bytes), never outside the table, and the figure is the nearest one with two decimals to the
  size in that unit; the conversion to floating point before it is off by at most one part in
  \<open>2\<^sup>53\<close>.
\<close>

theorem human_size_units:
  "\<exists>k c. human_size_fmt (HumanSize n) = Some (show_cents c @ '' '' @ [''B'', ''KB'', ''MB'', ''GB'', ''TB''] ! k) \<and>
     k \<le> 4 \<and> (k = 4 \<or> as_f64 n < 1024 ^ (k + 1)) \<and> (k = 0 \<or> 1024 ^ k \<le> as_f64 n) \<and>
     \<bar>of_nat c - 100 * (as_f64 n / 1024 ^ k)\<bar> \<le> 1 / 2 \<and>
     \<bar>as_f64 n - of_nat (unat n)\<bar> * 2 ^ 53 \<le> of_nat (unat n)"
proof -
  obtain y k where loop: "unit_loop (as_f64 n) 0 = (y, k)" by fastforce
  from unit_loop_result [OF this] have k: "k \<le> 4" "as_f64 n = y * 1024 ^ k" "k = 4 \<or> y < 1024"
    "0 = k \<or> 1 \<le> y"
    by simp_all
  from k(2) have y: "y = as_f64 n / 1024 ^ k" by simp
  have "0 \<le> as_f64 n" by (simp add: as_f64_def Let_def)
  then have "0 \<le> y" by (simp add: y)
  from fixed2_nearest [OF this] obtain c where c: "fixed2 y = show_cents c" "\<bar>of_nat c - 100 * y\<bar> \<le> 1 / 2"
    by blast
  have "human_size_fmt (HumanSize n) = Some (show_cents c @ '' '' @ UNITS ! k)"
    using k(1) by (simp add: human_size_fmt_def loop c(1))
  moreover have "k = 4 \<or> as_f64 n < 1024 ^ (k + 1)" using k(2,3) by auto
  moreover have "k = 0 \<or> 1024 ^ k \<le> as_f64 n" using k(2,4) by auto
  ultimately show ?thesis using k(1) c(2) as_f64_error [of n] unfolding y UNITS_def by blast
qed

text \<open>Rounding to two decimals can reach the next unit's threshold.\<close>

lemma human_size_just_below_1MB: "human_size_fmt (HumanSize 1048575) = Some ''1024.00 KB''"
proof -
  have "as_f64 1048575 = 1048575"
    by (simp add: as_f64_def excess_bits.simps round_even_def Let_def)
  then have "unit_loop (as_f64 1048575) 0 = (of_nat 1048575 / of_nat 1024, 1)"
    by (simp add: unit_loop.simps)
  then have "human_size_fmt (HumanSize 1048575) =
      Some (show_cents (round_even (100 * 1048575) 1024) @ '' '' @ UNITS ! 1)"
    by (rule human_size_fmt_fraction) simp_all
  moreover have "show_cents (round_even (100 * 1048575) 1024) @ '' '' @ UNITS ! 1 = ''1024.00 KB''"
    by (simp add: numeral_text)
  ultimately show ?thesis by simp
qed

lemma epoch_seconds_from_u64_saturates:
  "epoch_seconds_from_u64 n = EpochSeconds (min (uint n) i64_max)"
  by (simp add: epoch_seconds_from_u64_def min_def)

end
