(* ===== verification/Test_Util.thy ===== *)
theory Test_Util
  imports Firehol Display
begin

text \<open>
  \<open>src/test_util.rs\<close>: what the unit tests share: temporary directories with unique names, the
  two sample lists and the database built from them. A failing \<open>expect\<close> is \<open>None\<close>.
\<close>

subsection \<open>Temporary directories\<close>

text \<open>\<open>TempDir::new\<close> for a process and the value of its counter, which it increments.\<close>

definition temp_dir_new :: "path \<Rightarrow> nat \<Rightarrow> nat \<Rightarrow> string \<Rightarrow> path \<times> nat" where
  "temp_dir_new temp pid counter label =
     (temp @ [''haproxy-spoa-firehol-'' @ label @ ''-'' @ show_nat pid @ ''-'' @ show_nat counter],
      counter + 1)"

text \<open>The drop removes everything below the directory.\<close>

definition temp_dir_drop :: "path \<Rightarrow> fs \<Rightarrow> fs" where
  "temp_dir_drop dir fs = (\<lambda>p. if take (length dir) p = dir then None else fs p)"

subsection \<open>Sample lists\<close>

definition TEST_BUILD_EPOCH :: nat where "TEST_BUILD_EPOCH = 1700000000"

text \<open>The lines of a text that ends with a line break.\<close>

definition unlines :: "string list \<Rightarrow> string" where
  "unlines ls = concat (map (\<lambda>l. l @ [newline]) ls)"

definition ABUSE_LINES :: "string list" where
  "ABUSE_LINES =
     [''# Maintainer      : Team A'', ''# Maintainer URL  : https://a.example'',
      ''# List source URL : https://a.example/list'',
      ''# Source File Date: Thu Sep 10 23:59:49 UTC 2026'', ''#'', ''# Category        : abuse'', ''#'',
      ''10.0.0.0/8'', ''192.0.2.1'']"

definition SPAM_LINES :: "string list" where
  "SPAM_LINES =
     [''# Maintainer      : Team B'', ''# Maintainer URL  : https://b.example'',
      ''# List source URL : https://b.example/list'',
      ''# Source File Date: Fri Aug  7 10:10:14 UTC 2026'', ''#'', ''# Category        : spam'', ''#'',
      ''10.1.0.0/16'']"

definition ABUSE_IPSET :: string where "ABUSE_IPSET = unlines ABUSE_LINES"
definition SPAM_NETSET :: string where "SPAM_NETSET = unlines SPAM_LINES"

definition test_ipsets ::
  "'net ipnet_api \<Rightarrow> 'dt chrono_api \<Rightarrow> 'net ipset list option" where
  "test_ipsets N C =
     (case parse N C ''abuse.ipset'' ABUSE_IPSET of
        Inl _ \<Rightarrow> None
      | Inr abuse \<Rightarrow>
          (case parse N C ''spam.netset'' SPAM_NETSET of
             Inl _ \<Rightarrow> None
           | Inr spam \<Rightarrow> Some [abuse, spam]))"

text \<open>The path of the database and the system calls that wrote it.\<close>

definition build_test_db ::
  "'net ipnet_api \<Rightarrow> 'dt chrono_api \<Rightarrow> ('w, 'net) writer_api \<Rightarrow> system_time \<Rightarrow> path
    \<Rightarrow> (path \<times> fs_op list) option" where
  "build_test_db N C W now dir =
     (case test_ipsets N C of
        None \<Rightarrow> None
      | Some ipsets \<Rightarrow>
          (let path = dir @ [''test.mmdb'']
           in case write_mmdb W no_faults now ipsets TEST_BUILD_EPOCH path of
               (Inl _, _) \<Rightarrow> None
             | (Inr _, ops) \<Rightarrow> Some (path, ops)))"

subsection \<open>A calendar for the dates of the tests\<close>

definition test_chrono :: "string chrono_api" where
  "test_chrono =
     \<lparr>naive_parse = (\<lambda>value format.
        if format \<noteq> ''%a %b %e %H:%M:%S UTC %Y'' then None
        else if value = ''Thu Sep 10 23:59:49 UTC 2026'' then Some ''2026-09-10T23:59:49+00:00''
        else if value = ''Fri Aug  7 10:10:14 UTC 2026'' then Some ''2026-08-07T10:10:14+00:00''
        else if value = ''Wed Jul  1 00:00:00 UTC 2026'' then Some ''2026-07-01T00:00:00+00:00''
        else None),
      utc_rfc3339 = (\<lambda>s. s)\<rparr>"

subsection \<open>Facts\<close>

definition abuse_metadata :: metadata where
  "abuse_metadata =
     \<lparr>source_file_date_rfc3339 = ''2026-09-10T23:59:49+00:00'', list_source_url = ''https://a.example/list'',
      maintainer_url = ''https://a.example'', maintainer = ''Team A'', category = ''abuse''\<rparr>"

definition spam_metadata :: metadata where
  "spam_metadata =
     \<lparr>source_file_date_rfc3339 = ''2026-08-07T10:10:14+00:00'', list_source_url = ''https://b.example/list'',
      maintainer_url = ''https://b.example'', maintainer = ''Team B'', category = ''spam''\<rparr>"

definition abuse_list :: "cidr ipset" where
  "abuse_list = \<lparr>file_name = ''abuse.ipset'', sections = [\<lparr>section_metadata = abuse_metadata,
     networks = [\<lparr>cidr_addr = 0x0A000000, cidr_len = 8\<rparr>, \<lparr>cidr_addr = 0xC0000201, cidr_len = 32\<rparr>]\<rparr>]\<rparr>"

definition spam_list :: "cidr ipset" where
  "spam_list = \<lparr>file_name = ''spam.netset'', sections = [\<lparr>section_metadata = spam_metadata,
     networks = [\<lparr>cidr_addr = 0x0A010000, cidr_len = 16\<rparr>]\<rparr>]\<rparr>"

text \<open>The sample texts split back into their lines, and the lines parse to the two lists.\<close>

lemma str_lines_unlines: "list_all (\<lambda>l. newline \<notin> set l \<and> carriage_return \<notin> set l) ls \<Longrightarrow> str_lines (unlines ls) = ls"
  by (simp add: unlines_def str_lines_concat list_all_iff)

lemma sample_lines:
  "str_lines ABUSE_IPSET = ABUSE_LINES" "str_lines SPAM_NETSET = SPAM_LINES"
  unfolding ABUSE_IPSET_def SPAM_NETSET_def by (rule str_lines_unlines; code_simp)+

lemma abuse_parsed: "parse_lines ref_ipnet test_chrono ''abuse.ipset'' 0 ABUSE_LINES init_state =
   Ok \<lparr>st_networks = [\<lparr>cidr_addr = 0x0A000000, cidr_len = 8\<rparr>, \<lparr>cidr_addr = 0xC0000201, cidr_len = 32\<rparr>],
     st_sections = [], st_metadata = abuse_metadata\<rparr>"
  by code_simp

lemma spam_parsed: "parse_lines ref_ipnet test_chrono ''spam.netset'' 0 SPAM_LINES init_state =
   Ok \<lparr>st_networks = [\<lparr>cidr_addr = 0x0A010000, cidr_len = 16\<rparr>],
     st_sections = [], st_metadata = spam_metadata\<rparr>"
  by code_simp

lemma test_ipsets_lists: "test_ipsets ref_ipnet test_chrono = Some [abuse_list, spam_list]"
  by (simp add: test_ipsets_def parse_def sample_lines abuse_parsed spam_parsed final_sections_def
      abuse_list_def spam_list_def)

text \<open>Writing the test database: the path, and the file the system calls leave.\<close>

lemma build_test_db_Some:
  assumes "serialise W TEST_BUILD_EPOCH [abuse_list, spam_list] = Ok bs"
  shows "\<exists>ops. build_test_db ref_ipnet test_chrono W now dir = Some (dir @ [''test.mmdb''], ops) \<and>
    run_ops fs ops (dir @ [''test.mmdb'']) = Some \<lparr>file_content = bs, file_mtime = now\<rparr> \<and>
    (\<forall>name. name \<noteq> ''test.mmdb'' \<longrightarrow> name \<noteq> ''test.tmp'' \<longrightarrow> run_ops fs ops (dir @ [name]) = fs (dir @ [name]))"
proof -
  let ?out = "dir @ [''test.mmdb'']"
  obtain ops where ops: "write_mmdb W no_faults now [abuse_list, spam_list] TEST_BUILD_EPOCH ?out
      = (Ok (length bs), ops)"
    using assms by (auto simp: write_mmdb_def temp_file_defs no_faults_def)
  have tmp: "with_extension ?out ''tmp'' = dir @ [''test.tmp'']"
    by (simp add: with_extension_def path_file_name_def file_stem_def)
  have "run_ops fs ops (dir @ [name]) = fs (dir @ [name])" if "name \<noteq> ''test.mmdb''" "name \<noteq> ''test.tmp''" for name
    using write_mmdb_frame [OF ops, of "dir @ [name]" fs] that unfolding tmp by blast
  moreover have "run_ops fs ops ?out = Some \<lparr>file_content = bs, file_mtime = now\<rparr>"
    using write_mmdb_Ok_file [OF ops, of fs] assms by simp
  moreover have "build_test_db ref_ipnet test_chrono W now dir = Some (?out, ops)"
    by (simp add: build_test_db_def test_ipsets_lists ops Let_def)
  ultimately show ?thesis by blast
qed

text \<open>The rows of the test database.\<close>

lemma test_rows:
  "rows cidr_covers (ipv4_of_octets 10 1 2 3) [abuse_list, spam_list] =
     [(''abuse.ipset'', abuse_metadata), (''spam.netset'', spam_metadata)]"
  "rows cidr_covers (ipv4_of_octets 10 1 0 1) [abuse_list, spam_list] =
     [(''abuse.ipset'', abuse_metadata), (''spam.netset'', spam_metadata)]"
  "rows cidr_covers (ipv4_of_octets 10 2 0 1) [abuse_list, spam_list] = [(''abuse.ipset'', abuse_metadata)]"
  "rows cidr_covers (ipv4_of_octets 192 0 2 1) [abuse_list, spam_list] = [(''abuse.ipset'', abuse_metadata)]"
  "rows cidr_covers (ipv4_of_octets 8 8 8 8) [abuse_list, spam_list] = []"
  by code_simp+

subsection \<open>The reference writer serialises every list of ipsets\<close>

fun trie_leaves :: "'v trie \<Rightarrow> 'v option set" where
  "trie_leaves (Leaf v) = {v}"
| "trie_leaves (Node l r) = trie_leaves l \<union> trie_leaves r"

lemma trie_leaves_map: "trie_leaves (trie_map f t) = f ` trie_leaves t"
  by (induction t) auto

lemma trie_height_map [simp]: "trie_height (trie_map f t) = trie_height t"
  by (induction t) auto

lemma trie_leaves_insert: "trie_leaves (trie_insert f p t) \<subseteq> trie_leaves t \<union> f ` trie_leaves t"
  by (induction f p t rule: trie_insert.induct) (auto simp: trie_leaves_map)

lemma trie_height_insert: "trie_height (trie_insert f p t) \<le> max (trie_height t) (length p)"
  by (induction f p t rule: trie_insert.induct) auto

text \<open>A tree that the insertion loops made: not too deep, with a record of rows at every leaf.\<close>

definition record_tree :: "mval trie \<Rightarrow> bool" where
  "record_tree t \<longleftrightarrow> trie_height t \<le> 32 \<and> trie_leaves t \<subseteq> range rows_value"

lemma record_tree_insert:
  assumes "record_tree t"
  shows "\<exists>t'. w_insert_with ref_writer t n (merge_record ref_writer (mmdb_record name m)) = Inr t' \<and> record_tree t'"
proof -
  let ?f = "merge_record ref_writer (mmdb_record name m)" and ?p = "take (cidr_len n) (addr_bits (cidr_addr n))"
  have "?f ` range rows_value \<subseteq> range rows_value"
    using ref_mmdb.merge_record_rows by auto
  with assms trie_leaves_insert [of ?f ?p t] have "trie_leaves (trie_insert ?f ?p t) \<subseteq> range rows_value"
    unfolding record_tree_def by blast
  moreover have "trie_height (trie_insert ?f ?p t) \<le> 32"
    by (rule order_trans [OF trie_height_insert]) (use assms in \<open>simp add: record_tree_def\<close>)
  ultimately show ?thesis using assms by (simp add: record_tree_def ref_writer_def ref_insert_with_def)
qed

lemma record_tree_networks:
  "record_tree t \<Longrightarrow> \<exists>t'. insert_networks ref_writer name (mmdb_record name m) t ns = Inr t' \<and> record_tree t'"
proof (induction ns arbitrary: t)
  case (Cons n ns)
  from record_tree_insert [OF Cons.prems] obtain u where
    u: "w_insert_with ref_writer t n (merge_record ref_writer (mmdb_record name m)) = Inr u" "record_tree u"
    by blast
  from Cons.IH [OF u(2)] u(1) show ?case by simp
qed simp

lemma record_tree_sections:
  "record_tree t \<Longrightarrow> \<exists>t'. insert_sections ref_writer name t ss = Inr t' \<and> record_tree t'"
proof (induction ss arbitrary: t)
  case (Cons s ss)
  from record_tree_networks [OF Cons.prems] obtain u where
    u: "insert_networks ref_writer name (mmdb_record name (section_metadata s)) t (networks s) = Inr u" "record_tree u"
    by blast
  from Cons.IH [OF u(2)] u(1) show ?case by simp
qed simp

lemma record_tree_ipsets:
  "record_tree t \<Longrightarrow> \<exists>t'. insert_ipsets ref_writer t ips = Inr t' \<and> record_tree t'"
proof (induction ips arbitrary: t)
  case (Cons i ips)
  from record_tree_sections [OF Cons.prems] obtain u where
    u: "insert_sections ref_writer (file_name i) t (sections i) = Inr u" "record_tree u"
    by blast
  from Cons.IH [OF u(2)] u(1) show ?case by simp
qed simp

lemma leaf_entries_record_tree: "trie_leaves t \<subseteq> range rows_value \<Longrightarrow> \<exists>t'. leaf_entries t = Some t'"
proof (induction t)
  case (Leaf v)
  then show ?case by (auto simp: rows_value_def split: if_splits)
next
  case (Node l r)
  then show ?case by fastforce
qed

lemma ref_serialises: "is_ok (serialise ref_writer epoch ipsets)"
proof -
  have "record_tree (w_new ref_writer (db_config_of epoch))"
    by (auto simp: record_tree_def ref_writer_def rows_value_def intro: range_eqI [of _ _ "[]"])
  from record_tree_ipsets [OF this] obtain t where
    t: "insert_ipsets ref_writer (w_new ref_writer (db_config_of epoch)) ipsets = Inr t" "record_tree t" by blast
  from t(2) leaf_entries_record_tree [of t] obtain t' where t': "leaf_entries t = Some t'"
    by (auto simp: record_tree_def)
  with t leaf_entries_height [OF t'] have "is_ok (w_to_bytes ref_writer t)"
    by (simp add: record_tree_def ref_writer_def ref_to_bytes_def)
  with t(1) show ?thesis by (cases "w_to_bytes ref_writer t") (simp_all add: serialise_def)
qed

end
