(* ===== verification/Unit_Tests.thy ===== *)
theory Unit_Tests
  imports Test_Util Spoa Cli Hot_Reload
begin

text \<open>
  The repository's unit tests as boolean functions of the model: every \<open>assert\<close> is a conjunct, a
  failing \<open>unwrap\<close> or \<open>expect\<close> is \<open>False\<close>. The crates stay parameters. The tests of the database are
  proved for every writer and reader that satisfy the laws of \<open>mmdb_format\<close>; the other tests
  are evaluated.
\<close>

definition bytes_of_str :: "string \<Rightarrow> bytes" where
  "bytes_of_str s = map (\<lambda>c. of_nat (of_char c)) s"

abbreviation LOCALHOST4 :: ipv4 where "LOCALHOST4 \<equiv> ipv4_of_octets 127 0 0 1"

subsection \<open>\<open>firehol/ipset.rs\<close>\<close>

definition SAMPLE :: string where
  "SAMPLE = unlines
     [''#'', ''# firehol_level1'', ''#'', ''# ipv4 hash:net ipset'', ''#'',
      ''# Maintainer      : FireHOL'', ''# Maintainer URL  : http://iplists.firehol.org/'',
      ''# List source URL : '', ''# Source File Date: Thu Sep 10 23:59:49 UTC 2026'', ''#'',
      ''# Category        : attacks'', ''# Version         : 32851'', ''#'',
      ''#  http://iplists.firehol.org/?ipset=firehol_level1'', ''#'',
      ''0.0.0.0/8'', ''1.10.16.0/20'', '''', ''  5.6.7.8  '']"

text \<open>The networks of texts; \<open>None\<close> when one does not parse.\<close>

definition nets :: "'net ipnet_api \<Rightarrow> string list \<Rightarrow> 'net list option" where
  "nets N ss = those (map (net_from_str N) ss)"

definition parses_header_and_networks :: "'net ipnet_api \<Rightarrow> 'dt chrono_api \<Rightarrow> bool" where
  "parses_header_and_networks N C =
     (case parse N C ''firehol_level1.netset'' SAMPLE of
        Inl _ \<Rightarrow> False
      | Inr ipset \<Rightarrow>
          file_name ipset = ''firehol_level1.netset'' \<and> network_count ipset = 3 \<and>
          (case sections ipset of
             [sect] \<Rightarrow>
               section_metadata sect =
                 \<lparr>source_file_date_rfc3339 = ''2026-09-10T23:59:49+00:00'', list_source_url = '''',
                  maintainer_url = ''http://iplists.firehol.org/'', maintainer = ''FireHOL'',
                  category = ''attacks''\<rparr> \<and>
               Some (networks sect) = nets N [''0.0.0.0/8'', ''1.10.16.0/20'', ''5.6.7.8/32'']
           | _ \<Rightarrow> False))"

definition missing_header_fields_stay_empty :: "'net ipnet_api \<Rightarrow> 'dt chrono_api \<Rightarrow> bool" where
  "missing_header_fields_stay_empty N C =
     (case parse N C ''bare.ipset'' (unlines [''1.2.3.4'']) of
        Inl _ \<Rightarrow> False
      | Inr ipset \<Rightarrow>
          (case sections ipset of
             [sect] \<Rightarrow>
               section_metadata sect = default_metadata \<and> Some (networks sect) = nets N [''1.2.3.4/32'']
           | _ \<Rightarrow> False))"

definition empty_file_has_no_sections :: "'net ipnet_api \<Rightarrow> 'dt chrono_api \<Rightarrow> bool" where
  "empty_file_has_no_sections N C =
     (case parse N C ''empty.ipset'' (unlines [''# Category: abuse'', '''']) of
        Inl _ \<Rightarrow> False
      | Inr ipset \<Rightarrow> sections ipset = [] \<and> network_count ipset = 0)"

definition header_change_after_networks_starts_a_new_section ::
  "'net ipnet_api \<Rightarrow> 'dt chrono_api \<Rightarrow> bool" where
  "header_change_after_networks_starts_a_new_section N C =
     (case parse N C ''multi.ipset'' (unlines [''# Category: abuse'', ''1.1.1.1'', ''# Category: abuse'',
         ''2.2.2.2'', ''# Category: spam'', ''3.3.3.3'']) of
        Inl _ \<Rightarrow> False
      | Inr ipset \<Rightarrow>
          (case sections ipset of
             [s0, s1] \<Rightarrow>
               category (section_metadata s0) = ''abuse'' \<and>
               Some (networks s0) = nets N [''1.1.1.1/32'', ''2.2.2.2/32''] \<and>
               category (section_metadata s1) = ''spam'' \<and>
               Some (networks s1) = nets N [''3.3.3.3/32'']
           | _ \<Rightarrow> False))"

text \<open>The file and line of the error's message, and whether it names the date header.\<close>

fun error_place :: "parse_error \<Rightarrow> string \<times> nat" where
  "error_place (Invalid_Header file n key raw) = (file, n)"
| "error_place (Invalid_Entry file n entry) = (file, n)"

definition malformed_entries_are_rejected :: "'net ipnet_api \<Rightarrow> 'dt chrono_api \<Rightarrow> bool" where
  "malformed_entries_are_rejected N C \<longleftrightarrow>
     list_all (\<lambda>content.
        case parse N C ''bad.ipset'' (unlines [content]) of
          Inl e \<Rightarrow> error_place e = (''bad.ipset'', 1)
        | Inr _ \<Rightarrow> False)
       [''1.2.3'', ''1.2.3.4/33'', ''2001:db8::/32'', ''hello''] \<and>
     (case parse N C ''bad.ipset'' (unlines [''# Source File Date: yesterday'']) of
        Inl (Invalid_Header _ _ SourceFileDate _) \<Rightarrow> True
      | _ \<Rightarrow> False)"

text \<open>\<open>str::replace\<close>, for a non-empty pattern; the fuel is the length of the text.\<close>

fun str_replace :: "nat \<Rightarrow> string \<Rightarrow> string \<Rightarrow> string \<Rightarrow> string" where
  "str_replace n old new [] = []"
| "str_replace 0 old new s = s"
| "str_replace (Suc n) old new (c # cs) =
     (if take (length old) (c # cs) = old
      then new @ str_replace n old new (drop (length old) (c # cs))
      else c # str_replace n old new cs)"

text \<open>
  \<open>legacy\<close> is the reference implementation:
  \<open>DateTime::parse_from_str(..).with_timezone(&Utc).to_rfc3339()\<close> of a text and a format.
\<close>

definition source_file_date_matches_the_legacy_conversion ::
  "'dt chrono_api \<Rightarrow> (string \<Rightarrow> string \<Rightarrow> string option) \<Rightarrow> bool" where
  "source_file_date_matches_the_legacy_conversion C legacy \<longleftrightarrow>
     list_all (\<lambda>(raw, expected).
        parse_source_file_date C raw = Some expected \<and>
        legacy (str_replace (length raw) '' UTC '' '' +0000 '' raw) ''%a %b %d %H:%M:%S %z %Y'' = Some expected)
       [(''Thu Sep 10 23:59:49 UTC 2026'', ''2026-09-10T23:59:49+00:00''),
        (''Fri Aug  7 10:10:14 UTC 2026'', ''2026-08-07T10:10:14+00:00''),
        (''Wed Jul  1 00:00:00 UTC 2026'', ''2026-07-01T00:00:00+00:00'')] \<and>
     parse_source_file_date C ''Thu Sep 10 23:59:49 CET 2026'' = None"

text \<open>The legacy conversion of the three dates.\<close>

definition test_legacy :: "string \<Rightarrow> string \<Rightarrow> string option" where
  "test_legacy value' format =
     (if format \<noteq> ''%a %b %d %H:%M:%S %z %Y'' then None
      else map_of [(''Thu Sep 10 23:59:49 +0000 2026'', ''2026-09-10T23:59:49+00:00''),
        (''Fri Aug  7 10:10:14 +0000 2026'', ''2026-08-07T10:10:14+00:00''),
        (''Wed Jul  1 00:00:00 +0000 2026'', ''2026-07-01T00:00:00+00:00'')] value')"

lemma ipset_tests_pass:
  "parses_header_and_networks ref_ipnet test_chrono" "missing_header_fields_stay_empty ref_ipnet test_chrono"
  "empty_file_has_no_sections ref_ipnet test_chrono"
  "header_change_after_networks_starts_a_new_section ref_ipnet test_chrono"
  "malformed_entries_are_rejected ref_ipnet test_chrono"
  "source_file_date_matches_the_legacy_conversion test_chrono test_legacy"
  by code_simp+

subsection \<open>\<open>firehol/mod.rs\<close>\<close>

definition recognises_list_files_by_extension :: bool where
  "recognises_list_files_by_extension \<longleftrightarrow>
     is_ipset_file ''firehol_level1.netset'' \<and> is_ipset_file ''abuseipdb_1d.ipset'' \<and>
     \<not> is_ipset_file ''README.md'' \<and> \<not> is_ipset_file ''list.ipset.bak''"

definition modified_epoch_is_zero_for_missing_files :: "path \<Rightarrow> system_time \<Rightarrow> bool" where
  "modified_epoch_is_zero_for_missing_files dir now \<longleftrightarrow>
     (let fs0 = (\<lambda>_. None); file = dir @ [''present''];
          fs = run_ops fs0 [Op_Create file now, Op_Write file (bytes_of_str ''x'') now]
      in modified_epoch (stat_of fs0) (dir @ [''missing'']) = Ok 0 \<and>
         (case stat_of fs file of
            Inr (Inr mtime) \<Rightarrow>
              (let expected = system_time_to_epoch mtime
               in 0 < expected \<and> modified_epoch (stat_of fs) file = Ok expected)
          | _ \<Rightarrow> False))"

definition system_time_conversion_saturates :: bool where
  "system_time_conversion_saturates \<longleftrightarrow>
     system_time_to_epoch 0 = 0 \<and>
     system_time_to_epoch (0 + 1700000000 * 10 ^ 9) = 1700000000 \<and>
     system_time_to_epoch (0 - 1 * 10 ^ 9) = 0"

lemma updater_tests_pass:
  "recognises_list_files_by_extension" "system_time_conversion_saturates"
  by code_simp+

text \<open>The clock must be at least a second after the epoch, which the test asserts itself.\<close>

lemma modified_epoch_test_passes: "10 ^ 9 \<le> now \<Longrightarrow> modified_epoch_is_zero_for_missing_files dir now"
  by (simp add: modified_epoch_is_zero_for_missing_files_def stat_of_def modified_epoch_def
      system_time_to_epoch_def Let_def pos_imp_zdiv_pos_iff)

subsection \<open>\<open>firehol/git.rs\<close>\<close>

text \<open>Creating a directory and a file are steps of the world that git2 shares.\<close>

definition detects_missing_and_empty_directories ::
  "('w, 'repo, 'remote, 'oid, 'commit) git_api \<Rightarrow> (path \<Rightarrow> 'w \<Rightarrow> 'w) \<Rightarrow> (path \<Rightarrow> bytes \<Rightarrow> 'w \<Rightarrow> 'w)
    \<Rightarrow> path \<Rightarrow> 'w \<Rightarrow> bool" where
  "detects_missing_and_empty_directories A create_dir write_file dir w \<longleftrightarrow>
     (let w1 = create_dir dir w; w2 = write_file (dir @ [''file'']) (bytes_of_str ''x'') w1
      in is_missing_or_empty_dir A (dir @ [''missing'']) w1 = Ok True \<and>
         is_missing_or_empty_dir A dir w1 = Ok True \<and>
         is_missing_or_empty_dir A dir w2 = Ok False \<and>
         is_missing_or_empty_dir A (dir @ [''file'']) w2 = Ok False)"

text \<open>A world of directories and files.\<close>

type_synonym dir_world = "path list \<times> path list"

definition list_dir :: "dir_world \<Rightarrow> path \<Rightarrow> io_error + string list" where
  "list_dir w p =
     (if p \<in> set (fst w) then Inr (map last (filter (\<lambda>q. q \<noteq> [] \<and> butlast q = p) (fst w @ snd w)))
      else if p \<in> set (snd w) then Inl IoNotADirectory
      else Inl IoNotFound)"

lemma butlast_neq: "xs \<noteq> [] \<Longrightarrow> butlast xs \<noteq> xs"
  by (cases xs rule: rev_cases) simp_all

lemma git_test_passes:
  fixes A :: "(dir_world, 'repo, 'remote, 'oid, 'commit) git_api"
  shows "detects_missing_and_empty_directories (A\<lparr>read_dir := list_dir\<rparr>)
    (\<lambda>p (ds, fs). (p # ds, fs)) (\<lambda>p bs (ds, fs). (ds, p # fs)) dir ([], [])"
  using butlast_neq [of dir]
  by (auto simp: detects_missing_and_empty_directories_def is_missing_or_empty_dir_def list_dir_def Let_def)

subsection \<open>\<open>display.rs\<close>\<close>

definition human_count_groups_digits_by_three :: bool where
  "human_count_groups_digits_by_three \<longleftrightarrow>
     human_count_fmt (HumanCount 0) = Some ''0'' \<and>
     human_count_fmt (HumanCount 999) = Some ''999'' \<and>
     human_count_fmt (HumanCount 1000) = Some ''1 000'' \<and>
     human_count_fmt (HumanCount 1234567) = Some ''1 234 567'' \<and>
     human_count_fmt (human_count_from_usize 42) = Some ''42'' \<and>
     human_count_fmt (HumanCount (- 1)) = Some ''18 446 744 073 709 551 615''"

definition human_size_picks_the_largest_unit :: bool where
  "human_size_picks_the_largest_unit \<longleftrightarrow>
     human_size_fmt (HumanSize 0) = Some ''0.00 B'' \<and>
     human_size_fmt (HumanSize 1023) = Some ''1023.00 B'' \<and>
     human_size_fmt (HumanSize 1024) = Some ''1.00 KB'' \<and>
     human_size_fmt (HumanSize 121929625) = Some ''116.28 MB'' \<and>
     human_size_fmt (HumanSize (- 1)) = Some ''16777216.00 TB''"

definition epoch_seconds_formats_utc_or_reports_invalid :: "'d calendar \<Rightarrow> bool" where
  "epoch_seconds_formats_utc_or_reports_invalid D \<longleftrightarrow>
     epoch_seconds_fmt D (EpochSeconds 0) = ''1970-01-01 00:00:00'' \<and>
     epoch_seconds_fmt D (EpochSeconds 1700000000) = ''2023-11-14 22:13:20'' \<and>
     epoch_seconds_fmt D (EpochSeconds i64_max) = ''invalid epoch '' @ show_int i64_max \<and>
     epoch_seconds_from_u64 (- 1) = EpochSeconds i64_max"

text \<open>A calendar that knows the two dates.\<close>

definition test_calendar :: "string calendar" where
  "test_calendar =
     \<lparr>from_timestamp = map_of [(0, ''1970-01-01 00:00:00''), (1700000000, ''2023-11-14 22:13:20'')],
      format_date = (\<lambda>d format. if format = ''%Y-%m-%d %H:%M:%S'' then d else '''')\<rparr>"

lemma u64_max: "unat (- 1 :: u64) = 18446744073709551615" "uint (- 1 :: u64) = 18446744073709551615"
  by (simp_all add: unsigned_minus_1_eq_mask mask_eq_exp_minus_1)

lemma human_count_test: "human_count_groups_digits_by_three"
proof -
  show ?thesis
    by (simp add: u64_max human_count_groups_digits_by_three_def human_count_numeral numeral_text first_group_def
        human_count_from_usize_def)
qed

lemma human_size_test: "human_size_picks_the_largest_unit"
proof -
  have exact: "as_f64 0 = of_nat 0" "as_f64 1023 = of_nat 1023" "as_f64 1024 = of_nat 1024"
    "as_f64 121929625 = of_nat 121929625" "as_f64 (- 1) = of_nat 18446744073709551616"
    by (simp_all add: as_f64_def excess_bits.simps round_even_def Let_def u64_max)
  have loops: "unit_loop (as_f64 0) 0 = (of_nat 0 / of_nat 1, 0)"
    "unit_loop (as_f64 1023) 0 = (of_nat 1023 / of_nat 1, 0)"
    "unit_loop (as_f64 1024) 0 = (of_nat 1 / of_nat 1, 1)"
    "unit_loop (as_f64 121929625) 0 = (of_nat 121929625 / of_nat (1024 ^ 2), 2)"
    "unit_loop (as_f64 (- 1)) 0 = (of_nat 16777216 / of_nat 1, 4)"
    by (simp_all add: exact unit_loop.simps)
  show ?thesis
    unfolding human_size_picks_the_largest_unit_def
    by (simp add: loops [THEN human_size_fmt_fraction] numeral_text)
qed

lemma epoch_test: "epoch_seconds_formats_utc_or_reports_invalid test_calendar"
  by (simp add: epoch_seconds_formats_utc_or_reports_invalid_def epoch_seconds_fmt_def test_calendar_def
      epoch_seconds_from_u64_def u64_max i64_max_def)

subsection \<open>\<open>cli.rs\<close>\<close>

definition log_level_parsing_is_case_insensitive_and_lenient :: bool where
  "log_level_parsing_is_case_insensitive_and_lenient \<longleftrightarrow>
     parse_log_level ''DEBUG'' = Ok DEBUG \<and> parse_log_level '' warning '' = Ok WARN \<and>
     parse_log_level ''trace'' = Ok TRACE \<and> parse_log_level ''error'' = Ok ERROR \<and>
     parse_log_level ''bogus'' = Ok INFO"

lemma cli_test_passes: "log_level_parsing_is_case_insensitive_and_lenient"
  by (simp add: log_level_parsing_is_case_insensitive_and_lenient_def parse_log_level_examples)

end
