(* ===== verification/Database_Tests.thy ===== *)
theory Database_Tests
  imports Unit_Tests Agent
begin

text \<open>
  The unit tests of \<open>firehol/builder.rs\<close>, \<open>mmdb.rs\<close> and \<open>spoa.rs\<close>, which write the
  sample database, load it and look addresses up. They are proved to pass with every writer and
  reader that satisfy the laws of \<open>mmdb_format\<close>.
\<close>

subsection \<open>A loaded test database\<close>

text \<open>
  \<open>build_test_db(dir.path())\<close> in an empty directory, \<open>Mmdb::new()\<close> and \<open>load\<close>, then the
  rest of a test on the path, the files and the store.
\<close>

definition with_test_db ::
  "'net ipnet_api \<Rightarrow> 'dt chrono_api \<Rightarrow> ('w, 'net) writer_api \<Rightarrow> 'rd geoip_api \<Rightarrow> system_time \<Rightarrow> path
    \<Rightarrow> (path \<Rightarrow> fs \<Rightarrow> 'rd mmdb \<Rightarrow> bool) \<Rightarrow> bool" where
  "with_test_db N C W G now dir body =
     (case build_test_db N C W now dir of
        None \<Rightarrow> False
      | Some (path, ops) \<Rightarrow>
          (let fs = run_ops (\<lambda>_. None) ops
           in case load G (view_of fs) (view_of fs) path mmdb_new of
               (Inl _, _, _) \<Rightarrow> False
             | (Inr _, st, _) \<Rightarrow> body path fs st))"

subsection \<open>\<open>mmdb.rs\<close>\<close>

definition lookup_without_database_returns_none :: "'rd geoip_api \<Rightarrow> bool" where
  "lookup_without_database_returns_none G \<longleftrightarrow> lookup G mmdb_new (V4 LOCALHOST4) (\<lambda>_. ()) = None"

definition lookup_exposes_merged_records_without_copies ::
  "'net ipnet_api \<Rightarrow> 'dt chrono_api \<Rightarrow> ('w, 'net) writer_api \<Rightarrow> 'rd geoip_api \<Rightarrow> system_time \<Rightarrow> path \<Rightarrow> bool"
where
  "lookup_exposes_merged_records_without_copies N C W G now dir =
     with_test_db N C W G now dir (\<lambda>path fs mmdb.
       let overlap = V4 (ipv4_of_octets 10 1 2 3);
           single = V4 (ipv4_of_octets 10 2 0 1);
           host = V4 (ipv4_of_octets 192 0 2 1)
       in lookup G mmdb overlap
            (\<lambda>e. (entry_file_name e, entry_category e, entry_maintainer e, entry_source_file_date e)) =
            Some ([''abuse.ipset'', ''spam.netset''], [''abuse'', ''spam''], [''Team A'', ''Team B''],
              [''2026-09-10T23:59:49+00:00'', ''2026-08-07T10:10:14+00:00'']) \<and>
          lookup G mmdb single entry_file_name = Some [''abuse.ipset''] \<and>
          lookup G mmdb host entry_category = Some [''abuse''] \<and>
          lookup G mmdb (V4 (ipv4_of_octets 8 8 8 8)) (\<lambda>_. ()) = None \<and>
          lookup G mmdb (V6 1) (\<lambda>_. ()) = None)"

text \<open>\<open>later\<close> is the clock's value when the file's time is set.\<close>

definition reload_if_changed_follows_the_modification_time ::
  "'net ipnet_api \<Rightarrow> 'dt chrono_api \<Rightarrow> ('w, 'net) writer_api \<Rightarrow> 'rd geoip_api \<Rightarrow> system_time \<Rightarrow> system_time
    \<Rightarrow> path \<Rightarrow> bool"
where
  "reload_if_changed_follows_the_modification_time N C W G now later dir =
     (case build_test_db N C W now dir of
        None \<Rightarrow> False
      | Some (path, ops) \<Rightarrow>
          (let fs = run_ops (\<lambda>_. None) ops; vw = view_of fs;
               (first, st1, _) = reload_if_changed G vw vw path mmdb_new;
               (second, st2, _) = reload_if_changed G vw vw path st1;
               touched = (case fs path of
                   None \<Rightarrow> fs
                 | Some f \<Rightarrow> fs(path \<mapsto> f\<lparr>file_mtime := later + 5 * 10 ^ 9\<rparr>));
               vw' = view_of touched;
               (third, st3, _) = reload_if_changed G vw' vw' path st2;
               (fourth, st4, _) = reload_if_changed G vw' vw' path st3;
               (fifth, st5, _) = reload_if_changed G vw' vw' (dir @ [''missing.mmdb'']) st4
           in first = Ok True \<and> second = Ok False \<and> fs path \<noteq> None \<and> third = Ok True \<and>
              fourth = Ok False \<and> \<not> is_ok fifth \<and>
              lookup G st5 (V4 (ipv4_of_octets 10 2 0 1)) (length \<circ> entry_file_name) = Some 1))"

definition corrupt_file_is_rejected_and_previous_snapshot_kept ::
  "'net ipnet_api \<Rightarrow> 'dt chrono_api \<Rightarrow> ('w, 'net) writer_api \<Rightarrow> 'rd geoip_api \<Rightarrow> system_time \<Rightarrow> path \<Rightarrow> bool"
where
  "corrupt_file_is_rejected_and_previous_snapshot_kept N C W G now dir =
     with_test_db N C W G now dir (\<lambda>path fs mmdb.
       let corrupt = dir @ [''corrupt.mmdb''];
           fs' = run_ops fs [Op_Create corrupt now, Op_Write corrupt (bytes_of_str ''definitely not an mmdb file'') now];
           (again, mmdb', _) = load G (view_of fs') (view_of fs') corrupt mmdb
       in \<not> is_ok again \<and>
          lookup G mmdb' (V4 (ipv4_of_octets 10 2 0 1)) (length \<circ> entry_file_name) = Some 1)"

subsection \<open>\<open>spoa.rs\<close>\<close>

text \<open>The helpers \<open>filter\<close> and \<open>entry\<close> of the tests.\<close>

definition filter_of :: "string list \<Rightarrow> string list \<Rightarrow> ip_filter" where
  "filter_of categories file_names = new_filter (set categories) (set file_names)"

definition entry_of :: "string list \<Rightarrow> string list \<Rightarrow> firehol_entry" where
  "entry_of files categories = default_entry\<lparr>entry_file_name := files, entry_category := categories\<rparr>"

definition category_match_takes_precedence_over_file_name :: bool where
  "category_match_takes_precedence_over_file_name \<longleftrightarrow>
     find_match (filter_of [''spam''] [''a.ipset'']) (entry_of [''a.ipset'', ''b.ipset''] [''abuse'', ''spam'']) =
       Some \<lparr>hit_index = 1, hit_reason = ByCategory\<rparr>"

definition file_name_match_is_used_when_no_category_matches :: bool where
  "file_name_match_is_used_when_no_category_matches \<longleftrightarrow>
     (let flt = filter_of [''attacks''] [''b.ipset'']
      in find_match flt (entry_of [''a.ipset'', ''b.ipset''] [''abuse'', ''spam'']) =
           Some \<lparr>hit_index = 1, hit_reason = ByFileName\<rparr> \<and>
         find_match flt (entry_of [''c.ipset''] [''abuse'']) = None)"

definition should_drop_uses_the_loaded_database ::
  "'net ipnet_api \<Rightarrow> 'dt chrono_api \<Rightarrow> ('w, 'net) writer_api \<Rightarrow> 'rd geoip_api \<Rightarrow> system_time \<Rightarrow> path \<Rightarrow> bool"
where
  "should_drop_uses_the_loaded_database N C W G now dir =
     with_test_db N C W G now dir (\<lambda>path fs mmdb.
       let overlap = V4 (ipv4_of_octets 10 1 2 3);
           abuse_only = V4 (ipv4_of_octets 10 2 0 1);
           unlisted = V4 (ipv4_of_octets 8 8 8 8);
           by_category = filter_of [''spam''] [];
           by_file = filter_of [] [''abuse.ipset''];
           nothing = filter_of [''attacks''] [''other.ipset'']
       in fst (should_drop G by_category mmdb overlap) \<and>
          \<not> fst (should_drop G by_category mmdb abuse_only) \<and>
          \<not> fst (should_drop G by_category mmdb unlisted) \<and>
          fst (should_drop G by_file mmdb overlap) \<and>
          fst (should_drop G by_file mmdb abuse_only) \<and>
          \<not> fst (should_drop G by_file mmdb unlisted) \<and>
          \<not> fst (should_drop G nothing mmdb overlap))"

subsection \<open>\<open>firehol/builder.rs\<close>\<close>

text \<open>\<open>metadata\<close> is \<open>Reader::get_metadata\<close>; the clock does not move during the test.\<close>

definition writes_a_database_the_reader_understands ::
  "'net ipnet_api \<Rightarrow> 'dt chrono_api \<Rightarrow> ('w, 'net) writer_api \<Rightarrow> 'rd geoip_api \<Rightarrow> ('rd \<Rightarrow> db_config)
    \<Rightarrow> system_time \<Rightarrow> path \<Rightarrow> bool"
where
  "writes_a_database_the_reader_understands N C W G metadata_of now dir =
     (let output = dir @ [''out.mmdb''];
          fs0 = run_ops (\<lambda>_. None) [Op_Create output now, Op_Write output (bytes_of_str ''stale'') now]
      in case test_ipsets N C of
          None \<Rightarrow> False
        | Some ipsets \<Rightarrow>
            (case write_mmdb W no_faults now ipsets TEST_BUILD_EPOCH output of
               (Inl _, _) \<Rightarrow> False
             | (Inr n, ops) \<Rightarrow>
                 (let fs = run_ops fs0 ops
                  in case fs output of
                      None \<Rightarrow> False
                    | Some f \<Rightarrow>
                        length (file_content f) = n \<and>
                        fs (with_extension output ''tmp'') = None \<and>
                        (case g_from_bytes G (file_content f) of
                           Inl _ \<Rightarrow> False
                         | Inr rd \<Rightarrow>
                             database_type (metadata_of rd) = DATABASE_TYPE \<and>
                             build_epoch (metadata_of rd) = TEST_BUILD_EPOCH \<and>
                             ip_version (metadata_of rd) = 4 \<and> record_size (metadata_of rd) = 28 \<and>
                             (case parse_ip_addr ''10.1.0.1'' of
                                None \<Rightarrow> False
                              | Some ip \<Rightarrow>
                                  (case g_lookup G rd ip of
                                     Inl _ \<Rightarrow> False
                                   | Inr e \<Rightarrow>
                                       entry_file_name e = [''abuse.ipset'', ''spam.netset''] \<and>
                                       entry_list_source_url e = [''https://a.example/list'', ''https://b.example/list''] \<and>
                                       entry_maintainer_url e = [''https://a.example'', ''https://b.example'']))))))"

definition temp_file_is_removed_when_not_persisted :: "system_time \<Rightarrow> path \<Rightarrow> bool" where
  "temp_file_is_removed_when_not_persisted now dir =
     (let path = dir @ [''db.tmp'']
      in case temp_write no_faults now path (bytes_of_str ''partial'') :: (cidr build_error + temp_file) \<times> fs_op list of
          (Inl _, _) \<Rightarrow> False
        | (Inr temp, ops) \<Rightarrow>
            (let fs = run_ops (\<lambda>_. None) ops
             in fs path \<noteq> None \<and> run_ops fs (temp_drop no_faults temp) path = None))"

text \<open>The directory of the target is missing, so the rename fails with \<open>NotFound\<close>.\<close>

definition persist_failure_removes_the_temp_file :: "system_time \<Rightarrow> path \<Rightarrow> bool" where
  "persist_failure_removes_the_temp_file now dir =
     (let path = dir @ [''db.tmp'']; target = dir @ [''missing-dir'', ''db.mmdb''];
          flt = no_faults\<lparr>fail_rename := Some IoNotFound\<rparr>
      in case temp_write flt now path (bytes_of_str ''partial'') :: (cidr build_error + temp_file) \<times> fs_op list of
          (Inr (Some p), ops) \<Rightarrow>
            (case temp_persist flt p target :: (cidr build_error + unit) \<times> fs_op list of
               (r, ops') \<Rightarrow> \<not> is_ok r \<and> run_ops (run_ops (\<lambda>_. None) ops) ops' path = None)
        | _ \<Rightarrow> False)"

subsection \<open>The tests pass\<close>

lemma policy_tests_pass:
  "category_match_takes_precedence_over_file_name" "file_name_match_is_used_when_no_category_matches"
  by code_simp+

lemma temp_file_tests_pass:
  "temp_file_is_removed_when_not_persisted now dir" "persist_failure_removes_the_temp_file now dir"
  by (simp_all add: temp_file_is_removed_when_not_persisted_def persist_failure_removes_the_temp_file_def
      temp_file_defs no_faults_def)

lemma lookup_none_passes: "lookup_without_database_returns_none G"
  by (simp add: lookup_without_database_returns_none_def lookup_def mmdb_new_def)

text \<open>What the test database answers, whatever writer and reader made it.\<close>

definition overlap_entry :: firehol_entry where
  "overlap_entry = entry_of_rows [(''abuse.ipset'', abuse_metadata), (''spam.netset'', spam_metadata)]"

definition abuse_entry :: firehol_entry where
  "abuse_entry = entry_of_rows [(''abuse.ipset'', abuse_metadata)]"

lemmas entry_values = overlap_entry_def abuse_entry_def entry_of_rows_def abuse_metadata_def spam_metadata_def

definition test_database :: "'rd geoip_api \<Rightarrow> 'rd \<Rightarrow> bool" where
  "test_database G rd \<longleftrightarrow>
     query_db G rd (V4 (ipv4_of_octets 10 1 2 3)) = Some overlap_entry \<and>
     query_db G rd (V4 (ipv4_of_octets 10 1 0 1)) = Some overlap_entry \<and>
     query_db G rd (V4 (ipv4_of_octets 10 2 0 1)) = Some abuse_entry \<and>
     query_db G rd (V4 (ipv4_of_octets 192 0 2 1)) = Some abuse_entry \<and>
     query_db G rd (V4 (ipv4_of_octets 8 8 8 8)) = None \<and>
     query_db G rd (V6 1) = None"

lemma test_database_read:
  assumes "mmdb_format W cidr_covers content G" "serialise W TEST_BUILD_EPOCH [abuse_list, spam_list] = Ok bs"
  shows "\<exists>rd. g_from_bytes G bs = Inr rd \<and> test_database G rd"
proof -
  from serialise_lookup [OF assms] obtain rd where rd: "g_from_bytes G bs = Inr rd"
    and v4: "\<forall>a. g_lookup G rd (V4 a) = (if rows cidr_covers a [abuse_list, spam_list] = [] then Inl NotFound
      else Inr (entry_of_rows (rows cidr_covers a [abuse_list, spam_list])))"
    and v6: "\<forall>b. g_lookup G rd (V6 b) = Inl IPv4Only"
    by blast
  have "test_database G rd"
    unfolding test_database_def query_db_def v4 [rule_format] v6 [rule_format] test_rows
    by (simp add: overlap_entry_def abuse_entry_def)
  with rd show ?thesis by blast
qed

lemma lookup_query: "lookup G \<lparr>snapshot = Some \<lparr>reader = rd, modified = m\<rparr>\<rparr> addr f = map_option f (query_db G rd addr)"
  by (auto simp: lookup_def query_db_def split: sum.splits geo_error.splits)

lemma with_test_db_passes:
  assumes "mmdb_format W cidr_covers content G" "serialise W TEST_BUILD_EPOCH [abuse_list, spam_list] = Ok bs"
    and "\<And>rd fs. test_database G rd \<Longrightarrow>
      body (dir @ [''test.mmdb'']) fs \<lparr>snapshot = Some \<lparr>reader = rd, modified = Some now\<rparr>\<rparr>"
  shows "with_test_db ref_ipnet test_chrono W G now dir body"
proof -
  from build_test_db_Some [OF assms(2), of now dir "\<lambda>_. None"] obtain ops where
    db: "build_test_db ref_ipnet test_chrono W now dir = Some (dir @ [''test.mmdb''], ops)"
    "run_ops (\<lambda>_. None) ops (dir @ [''test.mmdb'']) = Some \<lparr>file_content = bs, file_mtime = now\<rparr>"
    by blast
  from test_database_read [OF assms(1,2)] obtain rd where "g_from_bytes G bs = Inr rd" "test_database G rd"
    by blast
  with db assms(3) show ?thesis
    by (simp add: with_test_db_def load_def load_locked_def view_of_def Let_def mmdb_new_def)
qed

lemma merged_records_test_passes:
  assumes "mmdb_format W cidr_covers content G" "serialise W TEST_BUILD_EPOCH [abuse_list, spam_list] = Ok bs"
  shows "lookup_exposes_merged_records_without_copies ref_ipnet test_chrono W G now dir"
  unfolding lookup_exposes_merged_records_without_copies_def
  by (rule with_test_db_passes [OF assms])
     (simp add: test_database_def lookup_query entry_values Let_def)

lemma should_drop_test_passes:
  assumes "mmdb_format W cidr_covers content G" "serialise W TEST_BUILD_EPOCH [abuse_list, spam_list] = Ok bs"
  shows "should_drop_uses_the_loaded_database ref_ipnet test_chrono W G now dir"
  unfolding should_drop_uses_the_loaded_database_def
  by (rule with_test_db_passes [OF assms])
     (simp add: test_database_def should_drop_find_entry find_entry_snapshot find_match_def entry_values
        filter_of_def new_filter_def Let_def)

lemma corrupt_test_passes:
  assumes "mmdb_format W cidr_covers content G" "serialise W TEST_BUILD_EPOCH [abuse_list, spam_list] = Ok bs"
    and "g_from_bytes G (bytes_of_str ''definitely not an mmdb file'') = Inl e"
  shows "corrupt_file_is_rejected_and_previous_snapshot_kept ref_ipnet test_chrono W G now dir"
  unfolding corrupt_file_is_rejected_and_previous_snapshot_kept_def
  by (rule with_test_db_passes [OF assms(1,2)])
     (simp add: test_database_def lookup_query entry_values Let_def load_def load_locked_def view_of_def assms(3))

lemma reload_test_passes:
  assumes "mmdb_format W cidr_covers content G" "serialise W TEST_BUILD_EPOCH [abuse_list, spam_list] = Ok bs"
    and "now \<le> later"
  shows "reload_if_changed_follows_the_modification_time ref_ipnet test_chrono W G now later dir"
proof -
  obtain ops where
    db: "build_test_db ref_ipnet test_chrono W now dir = Some (dir @ [''test.mmdb''], ops)"
    "run_ops (\<lambda>_. None) ops (dir @ [''test.mmdb'']) = Some \<lparr>file_content = bs, file_mtime = now\<rparr>"
    and other: "\<forall>name. name \<noteq> ''test.mmdb'' \<longrightarrow> name \<noteq> ''test.tmp'' \<longrightarrow>
      run_ops (\<lambda>_. None) ops (dir @ [name]) = None"
    using build_test_db_Some [OF assms(2), of now dir "\<lambda>_. None"] by blast
  from other have gone: "run_ops (\<lambda>_. None) ops (dir @ [''missing.mmdb'']) = None" by simp
  from test_database_read [OF assms(1,2)] obtain rd where "g_from_bytes G bs = Inr rd" "test_database G rd"
    by blast
  with db gone assms(3) show ?thesis
    by (simp add: reload_if_changed_follows_the_modification_time_def reload_if_changed_def load_locked_def
        view_of_def mmdb_new_def test_database_def lookup_query entry_values)
qed

lemma builder_test_passes:
  assumes "mmdb_format W cidr_covers content G" "serialise W TEST_BUILD_EPOCH [abuse_list, spam_list] = Ok bs"
    and "\<And>rd. g_from_bytes G bs = Inr rd \<Longrightarrow> metadata_of rd = db_config_of TEST_BUILD_EPOCH"
  shows "writes_a_database_the_reader_understands ref_ipnet test_chrono W G metadata_of now dir"
proof -
  let ?out = "dir @ [''out.mmdb'']"
  from test_database_read [OF assms(1,2)] obtain rd where rd: "g_from_bytes G bs = Inr rd" "test_database G rd"
    by blast
  have ip: "parse_ip_addr ''10.1.0.1'' = Some (V4 (ipv4_of_octets 10 1 0 1))" by code_simp
  from rd(2) have entry: "g_lookup G rd (V4 (ipv4_of_octets 10 1 0 1)) = Inr overlap_entry"
    by (cases "g_lookup G rd (V4 (ipv4_of_octets 10 1 0 1))") (simp_all add: test_database_def query_db_def)
  have tmp: "with_extension ?out ''tmp'' = dir @ [''out.tmp'']"
    by (simp add: with_extension_def path_file_name_def file_stem_def)
  show ?thesis
    by (simp add: writes_a_database_the_reader_understands_def test_ipsets_lists write_mmdb_def assms(2)
        temp_file_defs no_faults_def tmp rd(1) assms(3) [OF rd(1)] db_config_of_def ip [simplified] entry [simplified])
       (simp add: entry_values)
qed

section \<open>Properties\<close>



text \<open>
  The repository's remaining unit tests pass: the parser's sections, errors and dates, the filter's
  precedence, the temporary file's removal, list names, modification times and their saturation, missing and
  empty directories, the formatted counts, sizes and times, and the log levels.
\<close>

theorem unit_tests_pass:
  fixes A :: "(dir_world, 'repo, 'remote, 'oid, 'commit) git_api"
  shows "parses_header_and_networks ref_ipnet test_chrono \<and>
    missing_header_fields_stay_empty ref_ipnet test_chrono \<and>
    empty_file_has_no_sections ref_ipnet test_chrono \<and>
    header_change_after_networks_starts_a_new_section ref_ipnet test_chrono \<and>
    malformed_entries_are_rejected ref_ipnet test_chrono \<and>
    source_file_date_matches_the_legacy_conversion test_chrono test_legacy \<and>
    category_match_takes_precedence_over_file_name \<and>
    file_name_match_is_used_when_no_category_matches \<and>
    temp_file_is_removed_when_not_persisted now dir \<and>
    persist_failure_removes_the_temp_file now dir \<and>
    recognises_list_files_by_extension \<and>
    modified_epoch_is_zero_for_missing_files dir (10 ^ 9 + int n) \<and>
    system_time_conversion_saturates \<and>
    detects_missing_and_empty_directories (A\<lparr>read_dir := list_dir\<rparr>)
      (\<lambda>p (ds, fs). (p # ds, fs)) (\<lambda>p bs (ds, fs). (ds, p # fs)) dir ([], []) \<and>
    human_count_groups_digits_by_three \<and> human_size_picks_the_largest_unit \<and>
    epoch_seconds_formats_utc_or_reports_invalid test_calendar \<and>
    log_level_parsing_is_case_insensitive_and_lenient"
  by (intro conjI ipset_tests_pass policy_tests_pass temp_file_tests_pass updater_tests_pass
      modified_epoch_test_passes git_test_passes human_count_test human_size_test epoch_test cli_test_passes)
    simp

end
