(* ===== verification/Workload.thy ===== *)
theory Workload
  imports Net_Addr Complex_Main
begin

text \<open>
  \<open>benches/spoe/workload.rs\<close>: the SplitMix64 generator on 64-bit words and the addresses a
  load worker asks about. Proved of the generator: its output function is injective and its state visits all
  \<open>2\<^sup>64\<close> values, so any \<open>2\<^sup>64\<close> consecutive outputs are all the words, each once.
\<close>

subsection \<open>\<open>SplitMix64\<close>\<close>

type_synonym split_mix = u64

definition GAMMA :: u64 where "GAMMA = 0x9E3779B97F4A7C15"

definition rng_new :: "u64 \<Rightarrow> split_mix" where
  "rng_new seed = xor seed 0x9E3779B97F4A7C15"

text \<open>The output for a state, by two xor-shifted multiplications.\<close>

definition mix :: "u64 \<Rightarrow> u64" where
  "mix z0 =
     (let z1 = xor z0 (drop_bit 30 z0) * 0xBF58476D1CE4E5B9;
          z2 = xor z1 (drop_bit 27 z1) * 0x94D049BB133111EB
      in xor z2 (drop_bit 31 z2))"

definition next_u64 :: "split_mix \<Rightarrow> u64 \<times> split_mix" where
  "next_u64 s = (let s' = s + GAMMA in (mix s', s'))"

text \<open>\<open>None\<close> is the panic of a remainder by zero.\<close>

definition below :: "split_mix \<Rightarrow> u64 \<Rightarrow> (u64 \<times> split_mix) option" where
  "below s bound =
     (if bound = 0 then None else (case next_u64 s of (z, s') \<Rightarrow> Some (z mod bound, s')))"

subsection \<open>Addresses\<close>

definition random_ipv4 :: "split_mix \<Rightarrow> ipv4 \<times> split_mix" where
  "random_ipv4 s = (case next_u64 s of (z, s') \<Rightarrow> (ucast z, s'))"

definition random_ipv6 :: "split_mix \<Rightarrow> ipv6 \<times> split_mix" where
  "random_ipv6 s =
     (case next_u64 s of (hi, s1) \<Rightarrow>
      case next_u64 s1 of (lo, s2) \<Rightarrow> (or (push_bit 64 (ucast hi)) (ucast lo), s2))"

definition random_ip :: "split_mix \<Rightarrow> ip_addr \<times> split_mix" where
  "random_ip s =
     (case next_u64 s of (z, s1) \<Rightarrow>
        if and z 1 = 1 then (case random_ipv6 s1 of (a, s2) \<Rightarrow> (V6 a, s2))
        else (case random_ipv4 s1 of (a, s2) \<Rightarrow> (V4 a, s2)))"

subsection \<open>Workloads\<close>

datatype workload = Random | Fixed "ip_addr list"

text \<open>\<open>str::split(char)\<close>: at least one, possibly empty, piece.\<close>

fun split_on :: "char \<Rightarrow> string \<Rightarrow> string list" where
  "split_on c [] = [[]]"
| "split_on c (x # xs) =
     (case split_on c xs of
        [] \<Rightarrow> [[x]]
      | p # ps \<Rightarrow> if x = c then [] # p # ps else (x # p) # ps)"

text \<open>\<open>BENCH_IPS\<close>, if it is set to UTF-8 text; \<open>None\<close> is the panic about an invalid address.\<close>

definition from_env :: "string option \<Rightarrow> workload option" where
  "from_env var =
     (case var of
        Some list \<Rightarrow>
          if trim list \<noteq> [] then
            map_option Fixed
              (those (map parse_ip_addr (filter (\<lambda>item. item \<noteq> []) (map trim (split_on CHR '','' list)))))
          else Some Random
      | None \<Rightarrow> Some Random)"

text \<open>The address of a request; \<open>None\<close> is the panic of the remainder by zero.\<close>

fun next_ip :: "workload \<Rightarrow> split_mix \<Rightarrow> u64 \<Rightarrow> (ip_addr \<times> split_mix) option" where
  "next_ip Random rng sequence = Some (random_ip rng)"
| "next_ip (Fixed ips) rng sequence =
     (if ips = [] then None else Some (ips ! unat (sequence mod of_nat (length ips)), rng))"

subsection \<open>The output function is a bijection\<close>

lemma xor_shift_bit:
  fixes z :: u64
  shows "bit (xor z (drop_bit k z)) i \<longleftrightarrow> (bit z i \<noteq> bit z (k + i))"
  by (simp add: bit_xor_iff bit_drop_bit_eq)

text \<open>The high \<open>k\<close> bits are unchanged, and each lower bit follows from the ones above.\<close>

lemma xor_shift_inj:
  fixes y z :: u64
  assumes "0 < k" "xor y (drop_bit k y) = xor z (drop_bit k z)"
  shows "y = z"
proof (rule bit_eqI)
  fix i
  show "bit y i \<longleftrightarrow> bit z i"
  proof (induction "64 - i" arbitrary: i rule: less_induct)
    case less
    show ?case
    proof (cases "i < 64")
      case True
      with assms(1) have "64 - (k + i) < 64 - i" by simp
      then have "bit y (k + i) \<longleftrightarrow> bit z (k + i)" by (rule less)
      with xor_shift_bit [of y k i] xor_shift_bit [of z k i] assms(2) show ?thesis by auto
    next
      case False
      then show ?thesis using bit_imp_le_length [of y i] bit_imp_le_length [of z i] by auto
    qed
  qed
qed

lemma mult_inverse_inj:
  fixes a b :: "'a::len word"
  assumes "a * b = 1"
  shows "inj (\<lambda>x. x * a)"
proof (rule injI)
  fix x y assume "x * a = y * a"
  then have "x * a * b = y * a * b" by simp
  with assms show "x = y" by (simp add: mult.assoc)
qed

text \<open>The three multipliers are odd; these are their inverses modulo \<open>2\<^sup>64\<close>.\<close>

lemma multipliers_invertible:
  "GAMMA * 0xF1DE83E19937733D = 1"
  "0xBF58476D1CE4E5B9 * 0x96DE1B173F119089 = (1 :: u64)"
  "0x94D049BB133111EB * 0x319642B2D24D8EC3 = (1 :: u64)"
  by (simp_all add: GAMMA_def)

lemma inj_mix: "inj mix"
proof (rule injI)
  fix y z assume "mix y = mix z"
  then show "y = z"
    by (auto simp: mix_def Let_def
        dest!: xor_shift_inj [rotated] injD [OF mult_inverse_inj [OF multipliers_invertible(2)]]
          injD [OF mult_inverse_inj [OF multipliers_invertible(3)]])
qed

text \<open>The next \<open>n\<close> outputs.\<close>

fun outputs :: "nat \<Rightarrow> split_mix \<Rightarrow> u64 list" where
  "outputs 0 s = []"
| "outputs (Suc n) s = (case next_u64 s of (z, s') \<Rightarrow> z # outputs n s')"

lemma outputs_map: "outputs n s = map (\<lambda>i. mix (s + of_nat (Suc i) * GAMMA)) [0..<n]"
proof (induction n arbitrary: s)
  case (Suc n)
  have "outputs (Suc n) s = mix (s + GAMMA) # map (\<lambda>i. mix (s + GAMMA + of_nat (Suc i) * GAMMA)) [0..<n]"
    by (simp add: next_u64_def Suc.IH Let_def)
  also have "\<dots> = map (\<lambda>i. mix (s + of_nat (Suc i) * GAMMA)) (0 # map Suc [0..<n])"
    by (simp add: algebra_simps)
  finally show ?case by (simp add: map_Suc_upt upt_conv_Cons del: upt_Suc)
qed simp

lemma inj_multiples: "inj_on (\<lambda>i. s + of_nat (Suc i) * GAMMA) {..<2 ^ 64}"
proof (rule inj_onI)
  fix i j :: nat
  assume i: "i \<in> {..<2 ^ 64}" and j: "j \<in> {..<2 ^ 64}" and "s + of_nat (Suc i) * GAMMA = s + of_nat (Suc j) * GAMMA"
  then have "(of_nat (Suc i) :: u64) * GAMMA = of_nat (Suc j) * GAMMA" by simp
  then have "(of_nat i :: u64) = of_nat j"
    using injD [OF mult_inverse_inj [OF multipliers_invertible(1)]] by fastforce
  then have "unat (of_nat i :: u64) = unat (of_nat j :: u64)" by simp
  with i j show "i = j" by (simp add: unsigned_of_nat take_bit_nat_eq_self)
qed

lemma inj_outputs: "inj_on (\<lambda>i. mix (s + of_nat (Suc i) * GAMMA)) {..<2 ^ 64}"
  using comp_inj_on [OF inj_multiples [of s] inj_on_subset [OF inj_mix subset_UNIV]] by (simp add: comp_def)

lemma distinct_outputs: "n \<le> 2 ^ 64 \<Longrightarrow> distinct (outputs n s)"
  using inj_on_subset [OF inj_outputs [of s], of "{0..<n}"] by (simp add: outputs_map distinct_map subset_eq)

lemma all_outputs: "set (outputs (2 ^ 64) s) = UNIV"
proof (rule card_subset_eq)
  have "card (set (outputs (2 ^ 64) s)) = length (outputs (2 ^ 64) s)"
    by (rule distinct_card [OF distinct_outputs]) simp
  also have "\<dots> = 2 ^ 64" by (simp only: outputs_map length_map length_upt diff_zero)
  finally show "card (set (outputs (2 ^ 64) s)) = card (UNIV :: u64 set)" by (simp add: card_word)
qed simp_all

text \<open>Every word is an output at some index.\<close>

lemma output_at: "\<exists>i. mix (s + of_nat (Suc i) * GAMMA) = z"
proof -
  have "z \<in> set (outputs (2 ^ 64) s)" by (simp only: all_outputs UNIV_I)
  then show ?thesis unfolding outputs_map set_map by blast
qed

lemma those_length: "those xs = Some ys \<Longrightarrow> length ys = length xs"
proof (induction xs arbitrary: ys)
  case (Cons x xs)
  then show ?case by (cases x) (auto simp: map_option_case split: option.splits)
qed simp

section \<open>Properties\<close>

text \<open>
  The load generator's pseudo-random numbers have full period: from every state, the next \<open>2\<^sup>64\<close>
  outputs of SplitMix64 are all the 64-bit words, each exactly once.
\<close>

theorem split_mix_full_period:
  "distinct (outputs (2 ^ 64) s) \<and> set (outputs (2 ^ 64) s) = UNIV \<and> inj mix"
  using distinct_outputs [of "2 ^ 64" s] all_outputs inj_mix by simp

text \<open>
  A list of only commas and blanks in \<open>BENCH_IPS\<close> is accepted as a fixed workload without
  addresses, and this is the only accepted setting with which asking for an address panics, on a remainder
  by zero.
\<close>

theorem empty_fixed_workload_panics:
  assumes "from_env var = Some w"
  shows "next_ip w rng sequence = None \<longleftrightarrow>
    (\<exists>list. var = Some list \<and> trim list \<noteq> [] \<and> (\<forall>item\<in>set (split_on CHR '','' list). trim item = []))"
proof (cases w)
  case Random
  with assms show ?thesis
    by (auto simp: from_env_def filter_empty_conv split: option.splits if_splits)
next
  case (Fixed ips)
  with assms obtain list where list: "var = Some list" "trim list \<noteq> []"
    and ips: "those (map parse_ip_addr (filter (\<lambda>item. item \<noteq> []) (map trim (split_on CHR '','' list)))) = Some ips"
    by (auto simp: from_env_def split: option.splits if_splits)
  from those_length [OF ips] have "ips = [] \<longleftrightarrow> (\<forall>item\<in>set (split_on CHR '','' list). trim item = [])"
    by (auto simp: filter_empty_conv)
  with Fixed list show ?thesis by simp
qed

theorem empty_fixed_workload_panics_witness:
  "from_env (Some '' , '') = Some (Fixed []) \<and> next_ip (Fixed []) 1 1 = None"
proof -
  have env: "from_env (Some '' , '') = Some (Fixed [])" by code_simp
  have "trim '' , '' \<noteq> [] \<and> (\<forall>item\<in>set (split_on CHR '','' '' , ''). trim item = [])" by code_simp
  with env empty_fixed_workload_panics [OF env, of 1 1] show ?thesis by blast
qed

end
