(* ===== verification/Fixture.thy ===== *)
theory Fixture
  imports Workload Test_Util
begin

text \<open>
  \<open>benches/spoe/fixture.rs\<close>: the database the benchmark's agent serves (given, local or
  synthetic), with the generator loop that draws distinct random networks, the dropped categories and the counters.
  \<open>None\<close> is a panic of the benchmark; the drawing loop may not end in general, so it is a
  partial function, and it is proved to end for every feasible request.
\<close>

subsection \<open>Random networks\<close>

text \<open>\<open>u32::MAX << (32 - prefix)\<close>, for a prefix of 1 to 32.\<close>

definition prefix_mask :: "nat \<Rightarrow> u32" where
  "prefix_mask prefix_len = push_bit (32 - prefix_len) (- 1)"

definition network_entry :: "nat \<Rightarrow> ipv4 \<Rightarrow> string" where
  "network_entry prefix_len ip =
     (if prefix_len = 32 then show_ipv4 ip else show_ipv4 ip @ ''/'' @ show_nat prefix_len)"

text \<open>\<open>while seen.len() < count\<close>: the generator, the set \<open>seen\<close> and the text so far.\<close>

partial_function (option) networks_loop ::
  "nat \<Rightarrow> nat \<Rightarrow> split_mix \<Rightarrow> u32 list \<Rightarrow> string \<Rightarrow> (string \<times> split_mix) option" where
  "networks_loop count prefix_len rng seen body =
     (if length seen < count then
        (case next_u64 rng of
           (z, rng') \<Rightarrow>
             let address = and (ucast z) (prefix_mask prefix_len)
             in if address \<in> set seen then networks_loop count prefix_len rng' seen body
                else networks_loop count prefix_len rng' (address # seen)
                       (body @ network_entry prefix_len address @ [newline]))
      else Some (body, rng))"

definition random_networks :: "nat \<Rightarrow> nat \<Rightarrow> split_mix \<Rightarrow> (string \<times> split_mix) option" where
  "random_networks count prefix_len rng = networks_loop count prefix_len rng [] []"

subsection \<open>The synthetic database\<close>

definition UNROUTABLE :: "string list" where
  "UNROUTABLE =
     [''0.0.0.0/8'', ''10.0.0.0/8'', ''100.64.0.0/10'', ''127.0.0.0/8'', ''169.254.0.0/16'',
      ''172.16.0.0/12'', ''192.0.0.0/24'', ''192.0.2.0/24'', ''192.168.0.0/16'', ''198.18.0.0/15'',
      ''198.51.100.0/24'', ''203.0.113.0/24'', ''224.0.0.0/4'', ''240.0.0.0/4'']"

text \<open>File name, category and entries of each list.\<close>

definition synthetic_lists :: "split_mix \<Rightarrow> (string \<times> string \<times> string) list option" where
  "synthetic_lists rng0 =
     (case random_networks 100000 32 rng0 of
        None \<Rightarrow> None
      | Some (abuse, rng1) \<Rightarrow>
     (case random_networks 20000 24 rng1 of
        None \<Rightarrow> None
      | Some (abuse_nets, rng2) \<Rightarrow>
     (case random_networks 20000 20 rng2 of
        None \<Rightarrow> None
      | Some (attacks, rng3) \<Rightarrow>
          Some [(''synthetic_unroutable.netset'', ''unroutable'', unlines UNROUTABLE),
                (''synthetic_abuse.ipset'', ''abuse'', abuse),
                (''synthetic_abuse_nets.netset'', ''abuse'', abuse_nets),
                (''synthetic_attacks.netset'', ''attacks'', attacks)])))"

definition header_lines :: "string \<Rightarrow> string \<Rightarrow> string list" where
  "header_lines file_name' category' =
     [''# Maintainer      : spoa-bench'', ''# Maintainer URL  : https://example.invalid'',
      ''# List source URL : https://example.invalid/'' @ file_name',
      ''# Source File Date: Thu Sep 10 23:59:49 UTC 2026'', ''#'',
      ''# Category        : '' @ category', ''#'']"

definition synthetic_ipset ::
  "'net ipnet_api \<Rightarrow> 'dt chrono_api \<Rightarrow> string \<times> string \<times> string \<Rightarrow> 'net ipset option" where
  "synthetic_ipset N C l =
     (case l of
        (file_name', category', entries) \<Rightarrow>
          ok_of (parse N C file_name' (unlines (header_lines file_name' category') @ entries)))"

text \<open>The number of networks written, and the system calls that wrote them.\<close>

definition synthetic_database ::
  "'net ipnet_api \<Rightarrow> 'dt chrono_api \<Rightarrow> ('w, 'net) writer_api \<Rightarrow> system_time \<Rightarrow> path
    \<Rightarrow> (nat \<times> fs_op list) option" where
  "synthetic_database N C W now path =
     (case synthetic_lists (rng_new 0x5EEDF1EE) of
        None \<Rightarrow> None
      | Some entries \<Rightarrow>
          (case those (map (synthetic_ipset N C) entries) of
             None \<Rightarrow> None
           | Some ipsets \<Rightarrow>
               (case write_mmdb W no_faults now ipsets 1700000000 path of
                  (Inl _, _) \<Rightarrow> None
                | (Inr _, ops) \<Rightarrow> Some (sum_list (map network_count ipsets), ops))))"

subsection \<open>Drawing distinct networks ends\<close>

definition draw :: "nat \<Rightarrow> split_mix \<Rightarrow> nat \<Rightarrow> u32" where
  "draw prefix_len rng i = and (ucast (mix (rng + of_nat (Suc i) * GAMMA))) (prefix_mask prefix_len)"

lemma draw_shift: "draw prefix_len (rng + GAMMA) i = draw prefix_len rng (Suc i)"
  by (simp add: draw_def algebra_simps)

lemma networks_loop_done: "\<not> length seen < count \<Longrightarrow> networks_loop count p rng seen body = Some (body, rng)"
  by (subst networks_loop.simps) simp

lemma networks_loop_draw:
  "length seen < count \<Longrightarrow>
    networks_loop count p rng seen body =
      (if draw p rng 0 \<in> set seen then networks_loop count p (rng + GAMMA) seen body
       else networks_loop count p (rng + GAMMA) (draw p rng 0 # seen)
              (body @ network_entry p (draw p rng 0) @ [newline]))"
  by (subst networks_loop.simps) (simp add: next_u64_def draw_def Let_def)

text \<open>Known addresses are skipped.\<close>

lemma networks_loop_skip:
  "length seen < count \<Longrightarrow> (\<And>i. i < k \<Longrightarrow> draw p rng i \<in> set seen) \<Longrightarrow>
    networks_loop count p rng seen body = networks_loop count p (rng + of_nat k * GAMMA) seen body"
proof (induction k arbitrary: rng)
  case (Suc k)
  have "networks_loop count p rng seen body = networks_loop count p (rng + GAMMA) seen body"
    using Suc.prems by (subst networks_loop_draw) simp_all
  also have "\<dots> = networks_loop count p (rng + GAMMA + of_nat k * GAMMA) seen body"
    by (rule Suc.IH [OF Suc.prems(1)]) (simp add: draw_shift Suc.prems(2))
  finally show ?case by (simp add: algebra_simps)
qed simp

text \<open>There are \<open>2\<^sup>p\<close> masked addresses, and every one is drawn at some point.\<close>

definition masked :: "nat \<Rightarrow> u32 set" where
  "masked prefix_len = {a. and a (prefix_mask prefix_len) = a}"

lemma mask_shifted: "and (push_bit k w) (not (mask k)) = push_bit k (w :: 'a::len word)"
  by (rule bit_eqI) (auto simp: bit_and_iff bit_not_iff bit_mask_iff bit_push_bit_iff)

lemma masked_drawn:
  assumes "a \<in> masked p"
  shows "\<exists>i. draw p rng i = a"
proof -
  from output_at [of rng "ucast a"] obtain i where "mix (rng + of_nat (Suc i) * GAMMA) = ucast a" ..
  with assms show ?thesis by (intro exI [of _ i]) (simp add: draw_def masked_def ucast_up_ucast_id is_up)
qed

lemma card_masked: "p \<le> 32 \<Longrightarrow> 2 ^ p \<le> card (masked p)"
proof -
  assume p: "p \<le> 32"
  let ?f = "\<lambda>n. push_bit (32 - p) (of_nat n :: u32)"
  have "inj_on ?f {..<2 ^ p}"
  proof (rule inj_onI)
    fix m n :: nat
    assume mn: "m \<in> {..<2 ^ p}" "n \<in> {..<2 ^ p}" and eq: "?f m = ?f n"
    have small: "k * 2 ^ (32 - p) < 2 ^ 32" if "k < 2 ^ p" for k :: nat
    proof -
      have "k * 2 ^ (32 - p) < 2 ^ p * 2 ^ (32 - p)" using that by simp
      with p show ?thesis by (simp only: power_add [symmetric] le_add_diff_inverse)
    qed
    have "unat (?f k) = k * 2 ^ (32 - p)" if "k < 2 ^ p" for k :: nat
    proof -
      have "?f k = of_nat (k * 2 ^ (32 - p))" by (simp add: push_bit_eq_mult)
      then have "unat (?f k) = k * 2 ^ (32 - p) mod 2 ^ 32"
        by (simp only: unsigned_of_nat take_bit_eq_mod) simp
      with small [OF that] show ?thesis by simp
    qed
    with mn eq show "m = n" by (metis lessThan_iff mult_right_cancel power_not_zero zero_neq_numeral)
  qed
  then have "card (?f ` {..<2 ^ p}) = 2 ^ p" by (simp add: card_image)
  moreover have "?f ` {..<2 ^ p} \<subseteq> masked p"
    by (auto simp: masked_def prefix_mask_def mask_shifted)
  ultimately show ?thesis by (metis card_mono finite)
qed

text \<open>As long as an address is missing, the loop finds one.\<close>

lemma networks_loop_progress:
  assumes "length seen < count" "count \<le> 2 ^ p" "p \<le> 32"
  shows "\<exists>a rng'. a \<in> masked p \<and> a \<notin> set seen \<and>
    networks_loop count p rng seen body =
      networks_loop count p rng' (a # seen) (body @ network_entry p a @ [newline])"
proof -
  have "card (set seen) < card (masked p)"
    using assms card_masked [OF assms(3)] card_length [of seen] by linarith
  then have "\<not> masked p \<subseteq> set seen" by (metis List.finite_set card_mono leD)
  then have "\<exists>i. draw p rng i \<notin> set seen" using masked_drawn [of _ p rng] by blast
  define k where "k = (LEAST i. draw p rng i \<notin> set seen)"
  have k: "draw p rng k \<notin> set seen" "\<And>i. i < k \<Longrightarrow> draw p rng i \<in> set seen"
    unfolding k_def using LeastI_ex [OF \<open>\<exists>i. draw p rng i \<notin> set seen\<close>] not_less_Least by blast+
  have drawn: "draw p (rng + of_nat k * GAMMA) 0 = draw p rng k" by (simp add: draw_def algebra_simps)
  have "draw p rng k \<in> masked p" by (simp add: masked_def draw_def "and.assoc")
  moreover have "networks_loop count p rng seen body = networks_loop count p (rng + of_nat k * GAMMA) seen body"
    by (rule networks_loop_skip [OF assms(1) k(2)])
  ultimately show ?thesis
    using k(1) networks_loop_draw [OF assms(1), of p "rng + of_nat k * GAMMA" body] unfolding drawn by auto
qed

lemma networks_loop_ends:
  assumes "count \<le> 2 ^ p" "p \<le> 32" "distinct seen" "set seen \<subseteq> masked p" "length seen \<le> count"
  shows "\<exists>ns rng'. networks_loop count p rng seen body =
      Some (body @ unlines (map (network_entry p) ns), rng') \<and>
    distinct (rev seen @ ns) \<and> set ns \<subseteq> masked p \<and> length seen + length ns = count"
  using assms(3-5)
proof (induction "count - length seen" arbitrary: rng seen body)
  case 0
  then show ?case
    by (intro exI [of _ "[]"] exI [of _ rng]) (simp add: networks_loop_done unlines_def)
next
  case (Suc d)
  then have less: "length seen < count" by simp
  obtain a rng1 where a: "a \<in> masked p" "a \<notin> set seen"
    "networks_loop count p rng seen body =
      networks_loop count p rng1 (a # seen) (body @ network_entry p a @ [newline])"
    using networks_loop_progress [OF less assms(1,2)] by blast
  have "d = count - length (a # seen)" using Suc.hyps(2) by simp
  from Suc.hyps(1) [OF this, of rng1 "body @ network_entry p a @ [newline]"] a Suc.prems less
  obtain ns rng' where "networks_loop count p rng1 (a # seen) (body @ network_entry p a @ [newline]) =
      Some ((body @ network_entry p a @ [newline]) @ unlines (map (network_entry p) ns), rng')"
    "distinct (rev (a # seen) @ ns)" "set ns \<subseteq> masked p" "length (a # seen) + length ns = count"
    by (metis distinct.simps(2) insert_subset length_Cons less_eq_Suc_le list.simps(15))
  with a show ?case
    by (intro exI [of _ "a # ns"] exI [of _ rng']) (auto simp: unlines_def)
qed

lemma random_networks_ends:
  assumes "count \<le> 2 ^ p" "p \<le> 32"
  shows "\<exists>ns rng'. random_networks count p rng = Some (unlines (map (network_entry p) ns), rng') \<and>
    distinct ns \<and> set ns \<subseteq> masked p \<and> length ns = count"
  using networks_loop_ends [OF assms, of "[]" rng "[]"] by (simp add: random_networks_def)

subsection \<open>The synthetic lists parse\<close>

text \<open>A line that is an entry, whatever comes around it.\<close>

definition is_entry :: "'net ipnet_api \<Rightarrow> string \<Rightarrow> bool" where
  "is_entry N e \<longleftrightarrow> e \<noteq> [] \<and> CHR ''#'' \<notin> set e \<and> trim e = e \<and> newline \<notin> set e \<and>
     carriage_return \<notin> set e \<and> parse_network N e \<noteq> None"

lemma classify_all_append:
  "classify_all N C file i ls = Ok ks \<Longrightarrow> classify_all N C file (i + length ls) ls' = Ok ks' \<Longrightarrow>
    classify_all N C file i (ls @ ls') = Ok (ks @ ks')"
  by (induction ls arbitrary: i ks) (auto simp del: classify_all.simps(2) simp: classify_all_Cons_Ok)

lemma classify_entries:
  "list_all (is_entry N) es \<Longrightarrow>
    classify_all N C file i es = Ok (map (\<lambda>e. Network (the (parse_network N e))) es)"
proof (induction es arbitrary: i)
  case (Cons e es)
  then have e: "is_entry N e" by simp
  then have "strip_prefix_char CHR ''#'' e = None" by (cases e) (auto simp: is_entry_def)
  with e have "classify N C file (i + 1) e = Ok (Network (the (parse_network N e)))"
    by (auto simp: is_entry_def classify_def)
  with Cons show ?case by simp
qed simp

text \<open>The seven header lines, when the date and the two variable values are accepted.\<close>

lemma fixed_headers:
  "header_of '' Maintainer      : spoa-bench'' = Some (Maintainer, ''spoa-bench'')"
  "header_of '' Maintainer URL  : https://example.invalid'' = Some (MaintainerUrl, ''https://example.invalid'')"
  "header_of '' Source File Date: Thu Sep 10 23:59:49 UTC 2026'' = Some (SourceFileDate, ''Thu Sep 10 23:59:49 UTC 2026'')"
  "header_of '''' = None"
  by code_simp+

lemma classify_header_lines:
  assumes "naive_parse C ''Thu Sep 10 23:59:49 UTC 2026'' date_format \<noteq> None"
    and "header_of ('' List source URL : https://example.invalid/'' @ f) = Some (ListSourceUrl, u)"
    and "header_of ('' Category        : '' @ c) = Some (Category, v)"
  shows "\<exists>hs. classify_all N C file i (header_lines f c) = Ok hs \<and> line_networks hs = [] \<and>
    (\<forall>m. category (line_metadata m hs) = v)"
  using assms
  by (auto simp: header_lines_def classify_def fixed_headers header_value_def parse_source_file_date_def)

text \<open>Every network below a header without networks carries this header.\<close>

lemma annotate_header:
  "line_networks hs = [] \<Longrightarrow>
    annotate m (hs @ map (\<lambda>e. Network (f e)) es) = map (\<lambda>e. (line_metadata m hs, f e)) es"
proof (induction hs arbitrary: m)
  case Nil
  show ?case by (induction es) simp_all
next
  case (Cons h hs)
  then show ?case by (cases h) simp_all
qed

lemma unlines_append: "unlines (xs @ ys) = unlines xs @ unlines ys"
  by (simp add: unlines_def)

text \<open>The list a generated file parses to: one network per entry, all with its category.\<close>

definition list_of_entries :: "'net ipnet_api \<Rightarrow> string \<times> string \<times> string list \<Rightarrow> 'net ipset \<Rightarrow> bool" where
  "list_of_entries N l ips \<longleftrightarrow>
     (case l of
        (f, c, es) \<Rightarrow> file_name ips = f \<and> network_count ips = length es \<and>
          (\<exists>m. category m = c \<and> tagged (sections ips) = map (\<lambda>e. (m, the (parse_network N e))) es))"

lemma synthetic_ipset_parsed:
  assumes "naive_parse C ''Thu Sep 10 23:59:49 UTC 2026'' date_format \<noteq> None"
    and "header_of ('' List source URL : https://example.invalid/'' @ f) = Some (ListSourceUrl, u)"
    and "header_of ('' Category        : '' @ c) = Some (Category, c)"
    and "newline \<notin> set f" "carriage_return \<notin> set f" "newline \<notin> set c" "carriage_return \<notin> set c"
    and "list_all (is_entry N) es"
  shows "\<exists>ips. synthetic_ipset N C (f, c, unlines es) = Some ips \<and> list_of_entries N (f, c, es) ips"
proof -
  have "list_all (\<lambda>l. newline \<notin> set l \<and> carriage_return \<notin> set l) (header_lines f c @ es)"
    using assms(4-8) by (auto simp: header_lines_def newline_def carriage_return_def is_entry_def list_all_iff)
  from str_lines_unlines [OF this]
  have lines: "str_lines (unlines (header_lines f c) @ unlines es) = header_lines f c @ es"
    by (simp add: unlines_append)
  obtain hs where hs: "classify_all N C f 0 (header_lines f c) = Ok hs" "line_networks hs = []"
    "category (line_metadata default_metadata hs) = c"
    using classify_header_lines [OF assms(1-3)] by blast
  from classify_all_append [OF hs(1) classify_entries [OF assms(8)]] hs(2,3) show ?thesis
    by (auto simp: synthetic_ipset_def parse_classify lines network_count_tagged tagged_final_sections
        advance_annotate annotate_header list_of_entries_def simp del: foldl_append)
qed

subsection \<open>Printed networks are entries\<close>

lemma is_digit_plain: "is_digit c \<Longrightarrow> plain c"
  by (simp add: is_digit_def plain_def Let_def)

lemma show_nat_free:
  assumes "c \<in> set (show_nat n)"
  shows "c \<noteq> newline" "c \<noteq> carriage_return" "c \<noteq> CHR ''#''"
proof -
  have "is_digit c" using show_nat_digits [of n] assms by (simp add: list_all_iff)
  then show "c \<noteq> newline" "c \<noteq> carriage_return" "c \<noteq> CHR ''#''"
    by (auto simp: is_digit_def newline_def carriage_return_def Let_def)
qed

lemma network_is_entry:
  assumes "net_from_str N (show_ipv4 a @ ''/'' @ show_nat p) \<noteq> None"
  shows "is_entry N (show_ipv4 a @ ''/'' @ show_nat p)"
proof -
  have "last (show_nat p) \<in> set (show_nat p)" by simp
  then have "plain (last (show_nat p))"
    using show_nat_digits [of p] by (metis is_digit_plain list_all_iff)
  moreover have "plain (hd (show_ipv4 a))"
    by (intro addr_char_plain addr_char_ipv4 [of _ a]) simp
  ultimately have "trim (show_ipv4 a @ ''/'' @ show_nat p) = show_ipv4 a @ ''/'' @ show_nat p"
    by (intro trim_plain disjI2) simp
  then show ?thesis
    using assms show_ipv4_free [of a] show_nat_free [of _ p]
    by (auto simp: is_entry_def parse_network_def contains_char_def newline_def carriage_return_def)
qed

lemma address_is_entry: "is_entry N (show_ipv4 a)"
  using show_ipv4_free [of a] by (auto simp: is_entry_def parse_network_def contains_char_def)

lemma UNROUTABLE_networks:
  "UNROUTABLE = map (\<lambda>(a, p). show_ipv4 a @ ''/'' @ show_nat p)
     [(0, 8), (0x0A000000, 8), (0x64400000, 10), (0x7F000000, 8), (0xA9FE0000, 16), (0xAC100000, 12),
      (0xC0000000, 24), (0xC0000200, 24), (0xC0A80000, 16), (0xC6120000, 15), (0xC6336400, 24),
      (0xCB007100, 24), (0xE0000000, 4), (0xF0000000, 4)]"
  by (simp add: UNROUTABLE_def show_ipv4_def octet_def show_octet_def digit_chars show_nat.simps)

lemma list_headers:
  "header_of ('' List source URL : https://example.invalid/'' @ ''synthetic_unroutable.netset'') =
     Some (ListSourceUrl, ''https://example.invalid/synthetic_unroutable.netset'')"
  "header_of ('' List source URL : https://example.invalid/'' @ ''synthetic_abuse.ipset'') =
     Some (ListSourceUrl, ''https://example.invalid/synthetic_abuse.ipset'')"
  "header_of ('' List source URL : https://example.invalid/'' @ ''synthetic_abuse_nets.netset'') =
     Some (ListSourceUrl, ''https://example.invalid/synthetic_abuse_nets.netset'')"
  "header_of ('' List source URL : https://example.invalid/'' @ ''synthetic_attacks.netset'') =
     Some (ListSourceUrl, ''https://example.invalid/synthetic_attacks.netset'')"
  "header_of ('' Category        : '' @ ''unroutable'') = Some (Category, ''unroutable'')"
  "header_of ('' Category        : '' @ ''abuse'') = Some (Category, ''abuse'')"
  "header_of ('' Category        : '' @ ''attacks'') = Some (Category, ''attacks'')"
  by code_simp+

subsection \<open>Infeasible requests never end\<close>

lemma push_bit_drop_bit: "push_bit n (drop_bit n w) = and w (not (mask n))" for w :: "'a::len word"
  by (rule bit_eqI) (auto simp: bit_and_iff bit_not_iff bit_mask_iff bit_push_bit_iff bit_drop_bit_eq)

lemma masked_image: "p \<le> 32 \<Longrightarrow> masked p \<subseteq> (\<lambda>n. push_bit (32 - p) (of_nat n)) ` {..<2 ^ p}"
proof
  fix a :: u32
  assume p: "p \<le> 32" and "a \<in> masked p"
  then have "and a (not (mask (32 - p))) = a" by (simp add: masked_def prefix_mask_def)
  then have a: "a = push_bit (32 - p) (drop_bit (32 - p) a)"
    by (metis push_bit_drop_bit)
  have less: "unat a < 2 ^ 32" using unsigned_less [of a, where ?'a = nat] by simp
  then have "unat (drop_bit (32 - p) a) = unat a div 2 ^ (32 - p)"
    by (simp only: unsigned_drop_bit_eq take_bit_eq_mod) (simp add: drop_bit_eq_div)
  also have "\<dots> < 2 ^ p"
  proof (rule less_mult_imp_div_less)
    from less p show "unat a < 2 ^ p * 2 ^ (32 - p)" by (simp only: power_add [symmetric] le_add_diff_inverse)
  qed
  finally have "unat (drop_bit (32 - p) a) \<in> {..<2 ^ p}" by simp
  moreover have "a = push_bit (32 - p) (of_nat (unat (drop_bit (32 - p) a)))" using a by simp
  ultimately show "a \<in> (\<lambda>n. push_bit (32 - p) (of_nat n)) ` {..<2 ^ p}" by blast
qed

lemma card_masked_le:
  assumes "p \<le> 32"
  shows "card (masked p) \<le> 2 ^ p"
proof -
  let ?f = "\<lambda>n. push_bit (32 - p) (of_nat n :: u32)"
  have "card (masked p) \<le> card (?f ` {..<2 ^ p})" by (rule card_mono [OF _ masked_image [OF assms]]) simp
  also have "\<dots> \<le> card {..<(2 ^ p) :: nat}" by (rule card_image_le) simp
  finally show ?thesis by simp
qed

lemma networks_loop_enough:
  assumes "networks_loop count p rng seen body = Some r" "distinct seen" "set seen \<subseteq> masked p"
  shows "count \<le> card (masked p)"
proof -
  have "distinct seen \<longrightarrow> set seen \<subseteq> masked p \<longrightarrow> count \<le> card (masked p)"
  proof (rule networks_loop.raw_induct [where
        P = "\<lambda>count p rng seen body r. distinct seen \<longrightarrow> set seen \<subseteq> masked p \<longrightarrow> count \<le> card (masked p)",
        OF _ assms(1)], intro impI)
    fix loop count p rng and seen :: "u32 list" and body r
    assume IH: "\<And>count p rng seen body r. loop count p rng seen body = Some r \<Longrightarrow>
        distinct seen \<longrightarrow> set seen \<subseteq> masked p \<longrightarrow> count \<le> card (masked p)"
      and run: "(if length seen < count then (case next_u64 rng of
           (z, rng') \<Rightarrow>
             let address = and (ucast z) (prefix_mask p)
             in if address \<in> set seen then loop count p rng' seen body
                else loop count p rng' (address # seen) (body @ network_entry p address @ [newline]))
      else Some (body, rng)) = Some r"
      and seen: "distinct seen" "set seen \<subseteq> masked p"
    show "count \<le> card (masked p)"
    proof (cases "length seen < count")
      case True
      obtain z rng' where next_z: "next_u64 rng = (z, rng')" by fastforce
      let ?a = "and (ucast z) (prefix_mask p)"
      have "?a \<in> masked p" by (simp add: masked_def "and.assoc")
      with seen have "distinct (?a # seen) \<or> ?a \<in> set seen" "set (?a # seen) \<subseteq> masked p" by auto
      with True run seen next_z show ?thesis
        using IH [of count p rng' seen body] IH [of count p rng' "?a # seen"]
        by (simp add: Let_def split: if_splits)
    next
      case False
      have "length seen \<le> card (masked p)" using seen by (metis card_mono distinct_card finite)
      with False show ?thesis by simp
    qed
  qed
  with assms(2,3) show ?thesis by blast
qed

subsection \<open>The synthetic database\<close>

text \<open>What the four lists hold: the file name, the category and the entries of each.\<close>

definition synthetic_contents :: "ipv4 list \<Rightarrow> ipv4 list \<Rightarrow> ipv4 list \<Rightarrow> (string \<times> string \<times> string list) list" where
  "synthetic_contents abuse nets attacks =
     [(''synthetic_unroutable.netset'', ''unroutable'', UNROUTABLE),
      (''synthetic_abuse.ipset'', ''abuse'', map (network_entry 32) abuse),
      (''synthetic_abuse_nets.netset'', ''abuse'', map (network_entry 24) nets),
      (''synthetic_attacks.netset'', ''attacks'', map (network_entry 20) attacks)]"

text \<open>The random part: how many networks, all different and without host bits.\<close>

definition networks_drawn :: "ipv4 list \<Rightarrow> ipv4 list \<Rightarrow> ipv4 list \<Rightarrow> bool" where
  "networks_drawn abuse nets attacks \<longleftrightarrow>
     length abuse = 100000 \<and> length nets = 20000 \<and> length attacks = 20000 \<and>
     distinct abuse \<and> distinct nets \<and> distinct attacks \<and>
     set nets \<subseteq> masked 24 \<and> set attacks \<subseteq> masked 20"

lemma synthetic_lists_drawn:
  obtains abuse nets attacks where
    "synthetic_lists (rng_new 0x5EEDF1EE) =
       Some (map (\<lambda>(f, c, es). (f, c, unlines es)) (synthetic_contents abuse nets attacks))"
    "networks_drawn abuse nets attacks"
proof -
  obtain abuse rng1 where abuse: "random_networks 100000 32 (rng_new 0x5EEDF1EE) = Some (unlines (map (network_entry 32) abuse), rng1)"
    "length abuse = 100000" "distinct abuse" "set abuse \<subseteq> masked 32"
    using random_networks_ends [of 100000 32 "rng_new 0x5EEDF1EE"] by auto
  obtain nets rng2 where nets: "random_networks 20000 24 rng1 = Some (unlines (map (network_entry 24) nets), rng2)"
    "length nets = 20000" "distinct nets" "set nets \<subseteq> masked 24"
    using random_networks_ends [of 20000 24 rng1] by auto
  obtain attacks rng3 where attacks: "random_networks 20000 20 rng2 = Some (unlines (map (network_entry 20) attacks), rng3)"
    "length attacks = 20000" "distinct attacks" "set attacks \<subseteq> masked 20"
    using random_networks_ends [of 20000 20 rng2] by auto
  show thesis
    by (rule that [of abuse nets attacks])
       (simp_all add: synthetic_lists_def synthetic_contents_def networks_drawn_def abuse nets attacks)
qed

lemma synthetic_entries:
  assumes "\<And>a p. p \<le> 32 \<Longrightarrow> net_from_str N (show_ipv4 a @ ''/'' @ show_nat p) \<noteq> None"
    and "(f, c, es) \<in> set (synthetic_contents abuse nets attacks)"
  shows "list_all (is_entry N) es"
proof -
  have entries: "list_all (is_entry N) (map (network_entry p) ns)" if "p \<le> 32" for p ns
    using network_is_entry [OF assms(1) [OF that]] address_is_entry [of N]
    by (auto simp: list_all_iff network_entry_def)
  have "is_entry N (show_ipv4 a @ CHR ''/'' # show_nat p)" if "p \<le> 32" for a p
    using network_is_entry [OF assms(1) [OF that]] by simp
  then have "list_all (is_entry N) UNROUTABLE" unfolding UNROUTABLE_networks by simp
  with assms(2) entries [of 32 abuse] entries [of 24 nets] entries [of 20 attacks] show ?thesis
    by (auto simp: synthetic_contents_def)
qed

lemma synthetic_headers:
  assumes "(f, c, es) \<in> set (synthetic_contents abuse nets attacks)"
  shows "header_of ('' List source URL : https://example.invalid/'' @ f) =
      Some (ListSourceUrl, ''https://example.invalid/'' @ f)"
    and "header_of ('' Category        : '' @ c) = Some (Category, c)"
    and "newline \<notin> set f" "carriage_return \<notin> set f" "newline \<notin> set c" "carriage_return \<notin> set c"
  using assms
  by (auto simp: synthetic_contents_def newline_def carriage_return_def list_headers [simplified])

lemma those_all2:
  "(\<And>x. x \<in> set xs \<Longrightarrow> \<exists>y. g x = Some y \<and> P x y) \<Longrightarrow>
    \<exists>ys. those (map g xs) = Some ys \<and> list_all2 P xs ys"
proof (induction xs)
  case (Cons x xs)
  then obtain y ys where "g x = Some y" "P x y" "those (map g xs) = Some ys" "list_all2 P xs ys"
    by fastforce
  then show ?case by simp
qed simp

lemma synthetic_ipsets_parsed:
  assumes "\<And>a p. p \<le> 32 \<Longrightarrow> net_from_str N (show_ipv4 a @ ''/'' @ show_nat p) \<noteq> None"
    and "naive_parse C ''Thu Sep 10 23:59:49 UTC 2026'' date_format \<noteq> None"
  shows "\<exists>ipsets.
    those (map (\<lambda>l. synthetic_ipset N C (case l of (f, c, es) \<Rightarrow> (f, c, unlines es))) (synthetic_contents abuse nets attacks)) =
      Some ipsets \<and>
    list_all2 (list_of_entries N) (synthetic_contents abuse nets attacks) ipsets"
proof (rule those_all2)
  fix l
  assume l: "l \<in> set (synthetic_contents abuse nets attacks)"
  obtain f c es where fce: "l = (f, c, es)" by (cases l)
  from synthetic_ipset_parsed [OF assms(2) synthetic_headers [OF l [unfolded fce]]
      synthetic_entries [OF assms(1) l [unfolded fce]]]
  show "\<exists>ips. synthetic_ipset N C (case l of (f, c, es) \<Rightarrow> (f, c, unlines es)) = Some ips \<and> list_of_entries N l ips"
    by (simp add: fce)
qed

text \<open>The database that is written, with its lists and its file.\<close>

lemma synthetic_database_lists:
  assumes "\<And>a p. p \<le> 32 \<Longrightarrow> net_from_str N (show_ipv4 a @ ''/'' @ show_nat p) \<noteq> None"
    and "naive_parse C ''Thu Sep 10 23:59:49 UTC 2026'' date_format \<noteq> None"
    and "\<And>ipsets. is_ok (serialise W 1700000000 ipsets)"
  shows "\<exists>ops abuse nets attacks ipsets bs.
    synthetic_database N C W now path = Some (140014, ops) \<and>
    run_ops fs ops path = Some \<lparr>file_content = bs, file_mtime = now\<rparr> \<and>
    serialise W 1700000000 ipsets = Ok bs \<and>
    list_all2 (list_of_entries N) (synthetic_contents abuse nets attacks) ipsets \<and>
    networks_drawn abuse nets attacks"
proof -
  obtain abuse nets attacks where drawn: "synthetic_lists (rng_new 0x5EEDF1EE) =
      Some (map (\<lambda>(f, c, es). (f, c, unlines es)) (synthetic_contents abuse nets attacks))"
    "networks_drawn abuse nets attacks"
    by (rule synthetic_lists_drawn)
  obtain ipsets where parsed:
    "those (map (\<lambda>l. synthetic_ipset N C (case l of (f, c, es) \<Rightarrow> (f, c, unlines es))) (synthetic_contents abuse nets attacks)) =
       Some ipsets"
    "list_all2 (list_of_entries N) (synthetic_contents abuse nets attacks) ipsets"
    using synthetic_ipsets_parsed [OF assms(1,2)] by blast
  from parsed(2) drawn(2) have count: "sum_list (map network_count ipsets) = 140014"
    by (auto simp: synthetic_contents_def list_all2_Cons1 list_of_entries_def UNROUTABLE_def networks_drawn_def)
  from assms(3) [of ipsets] obtain bs where bs: "serialise W 1700000000 ipsets = Ok bs"
    unfolding is_ok_iff by blast
  then obtain ops where ops: "write_mmdb W no_faults now ipsets 1700000000 path = (Ok (length bs), ops)"
    by (auto simp: write_mmdb_def temp_file_defs no_faults_def)
  have "synthetic_database N C W now path = Some (140014, ops)"
    by (simp add: synthetic_database_def drawn(1) parsed(1) ops count comp_def)
  with write_mmdb_Ok_file [OF ops, of fs] bs parsed(2) drawn(2) show ?thesis by fastforce
qed

section \<open>Properties\<close>

text \<open>
  C38. The loop that draws distinct random networks ends exactly when there are enough of them: for a
  prefix length of at most 32 it returns if and only if the count is at most \<open>2\<close> to that length, whatever
  the state of the generator, and then its text lists exactly that many different
  networks, each with a zero host part, one per line. A larger request never returns.
\<close>

theorem random_networks_terminates:
  assumes "0 < p" "p \<le> 32"
  shows "case random_networks count p rng of
      None \<Rightarrow> 2 ^ p < count
    | Some (body, rng') \<Rightarrow>
        count \<le> 2 ^ p \<and>
        (\<exists>ns. body = unlines (map (network_entry p) ns) \<and> length ns = count \<and> distinct ns \<and>
           list_all (\<lambda>n. and n (push_bit (32 - p) (- 1)) = n) ns)"
proof (cases "count \<le> 2 ^ p")
  case True
  from random_networks_ends [OF this assms(2), of rng] obtain ns rng' where
    "random_networks count p rng = Some (unlines (map (network_entry p) ns), rng')"
    "distinct ns" "set ns \<subseteq> masked p" "length ns = count"
    by blast
  with True show ?thesis
    by (auto simp: masked_def prefix_mask_def list_all_iff simp del: push_bit_minus_one_eq_not_mask)
next
  case False
  then have "random_networks count p rng = None"
    using networks_loop_enough [of count p rng "[]" "[]"] card_masked_le [OF assms(2)]
    by (cases "random_networks count p rng") (fastforce simp: random_networks_def)+
  with False show ?thesis by simp
qed

theorem random_networks_terminates_witness:
  "random_networks 20000 20 (rng_new 0x5EEDF1EE) \<noteq> None \<and> random_networks 3 1 (rng_new 0x5EEDF1EE) = None"
  using random_networks_terminates [of 20 20000 "rng_new 0x5EEDF1EE"] random_networks_terminates [of 1 3 "rng_new 0x5EEDF1EE"]
  by (auto split: option.splits)

text \<open>
  The synthetic database of the benchmark is always built: its lists are drawn, printed, parsed by the
  program's own parser and written, with exactly 140014 networks, whenever the network parser accepts printed
  networks, the calendar its date, and the writer every list.
\<close>

theorem synthetic_database_built:
  assumes "\<And>a p. p \<le> 32 \<Longrightarrow> net_from_str N (show_ipv4 a @ ''/'' @ show_nat p) \<noteq> None"
    and "naive_parse C ''Thu Sep 10 23:59:49 UTC 2026'' date_format \<noteq> None"
    and "\<And>ipsets. is_ok (serialise W 1700000000 ipsets)"
  shows "\<exists>ops. synthetic_database N C W now path = Some (140014, ops) \<and>
    (\<exists>f. run_ops fs ops path = Some f \<and> file_mtime f = now)"
  using synthetic_database_lists [OF assms] by fastforce

lemma read_prefix: "p \<le> 32 \<Longrightarrow> read_number 10 2 False 33 (show_nat p) = Some (p, [])"
proof -
  have "list_all (\<lambda>p. read_number 10 2 False 33 (show_nat p) = Some (p, [])) [0..<33]" by code_simp
  then show "p \<le> 32 \<Longrightarrow> read_number 10 2 False 33 (show_nat p) = Some (p, [])" by (simp add: list_all_iff)
qed

lemma ref_net_from_str:
  "p \<le> 32 \<Longrightarrow> net_from_str ref_ipnet (show_ipv4 a @ ''/'' @ show_nat p) = Some \<lparr>cidr_addr = a, cidr_len = p\<rparr>"
  using split_once_append [OF show_ipv4_free(2), of a "show_nat p"]
  by (simp add: ref_ipnet_def cidr_from_str_def read_prefix)

theorem synthetic_database_built_witness:
  "\<exists>ops. synthetic_database ref_ipnet test_chrono ref_writer 5 [''synthetic.mmdb''] = Some (140014, ops)"
proof -
  have "naive_parse test_chrono ''Thu Sep 10 23:59:49 UTC 2026'' date_format \<noteq> None"
    by (simp add: test_chrono_def date_format_def)
  with synthetic_database_built [of ref_ipnet test_chrono ref_writer 5 "[''synthetic.mmdb'']"] ref_net_from_str ref_serialises
  show ?thesis by fastforce
qed

end
