(* ===== verification/Bench_Agent.thy ===== *)
theory Bench_Agent
  imports Fixture Listeners Agent
begin

text \<open>
  \<open>benches/spoe/fixture.rs\<close>: the in-process agent of the benchmark, from the choice of its database to its
  end, and the lookups \<open>main.rs\<close> measures on it without the network. Composed of the synthetic database, the
  snapshot, the listener, the watcher and the filter of the other theories.
\<close>

subsection \<open>The database in use\<close>

definition DEFAULT_CATEGORIES :: string where "DEFAULT_CATEGORIES = ''unroutable,abuse''"

text \<open>Milliseconds.\<close>

definition RUNTIME_SHUTDOWN :: nat where "RUNTIME_SHUTDOWN = 2000"

text \<open>
  What the process finds: its environment variables, directories and number, which paths the operating system
  says are files, and whether a directory can be created.
\<close>

record bench_env =
  be_mmdb :: "string option"
  be_categories :: "string option" \<comment> \<open>absent also when it is not UTF-8\<close>
  be_cwd :: path
  be_temp :: path
  be_pid :: nat
  be_is_file :: "string \<Rightarrow> bool"
  be_create_dir :: "path \<Rightarrow> string + unit"

text \<open>\<open>std::path::absolute\<close>: refuses the empty path, drops empty components and dots, keeps \<open>..\<close>.\<close>

definition absolute_path :: "path \<Rightarrow> string \<Rightarrow> path option" where
  "absolute_path cwd s =
     (if s = [] then None
      else Some ((if hd s = CHR ''/'' then [] else cwd) @
                 filter (\<lambda>c. c \<noteq> [] \<and> c \<noteq> ''.'') (split_on CHR ''/'' s)))"

definition bench_dir :: "bench_env \<Rightarrow> path" where
  "bench_dir E = be_temp E @ [''spoa-bench-'' @ show_nat (be_pid E)]"

datatype bench_panic =
    Bench_Metrics
  | Not_A_File string
  | Create_Dir_Failed string
  | No_Synthetic_Database
  | Not_Absolute string
  | Bench_Load_Failed mmdb_error
  | No_Runtime string
  | Bench_Bind_Failed bind_failure
  | No_Local_Addr string
  | Bench_Watch_Failed start_error

text \<open>The path, the directory to remove at the end, the description, and the system calls made.\<close>

definition locate_or_build_database ::
  "'net ipnet_api \<Rightarrow> 'dt chrono_api \<Rightarrow> ('w, 'net) writer_api \<Rightarrow> bench_env \<Rightarrow> system_time
    \<Rightarrow> bench_panic + (string \<times> path option \<times> string) \<times> fs_op list" where
  "locate_or_build_database N C W E now =
     (case be_mmdb E of
        Some p \<Rightarrow>
          (if be_is_file E p then Ok ((p, None, p @ '' (BENCH_MMDB)''), []) else Err (Not_A_File p))
      | None \<Rightarrow>
          (if be_is_file E ''firehol.mmdb''
           then Ok ((''firehol.mmdb'', None, ''firehol.mmdb (working directory)''), [])
           else
             let dir = bench_dir E; path = dir @ [''synthetic.mmdb'']
             in case be_create_dir E dir of
                 Inl e \<Rightarrow> Err (Create_Dir_Failed e)
               | Inr _ \<Rightarrow>
                   (case synthetic_database N C W now path of
                      None \<Rightarrow> Err No_Synthetic_Database
                    | Some (drawn, ops) \<Rightarrow>
                        Ok ((path_str path, Some dir, ''synthetic, '' @ show_nat drawn @
                          '' networks in categories unroutable/abuse/attacks''), ops))))"

definition categories_from_env :: "string option \<Rightarrow> string list" where
  "categories_from_env var =
     filter (\<lambda>c. c \<noteq> [])
       (map trim (split_on CHR '','' (case var of None \<Rightarrow> DEFAULT_CATEGORIES | Some v \<Rightarrow> v)))"

subsection \<open>The agent\<close>

record 'rd fixture =
  fx_runtime :: bool
  fx_watcher :: "(path \<times> string) option"
  fx_temp_dir :: "path option"
  fx_addr :: sock_addr
  fx_mmdb :: "'rd mmdb"
  fx_mmdb_path :: path
  fx_database :: string
  fx_categories :: "string list"

text \<open>\<open>Fixture::filter\<close>; the filter of the served listener is built from the same values.\<close>

definition fixture_filter :: "'rd fixture \<Rightarrow> ip_filter" where
  "fixture_filter fx = new_filter (set (fx_categories fx)) {}"

record bench_platform =
  bp_registry :: "metric list"
  bp_runtime :: "string + unit"
  bp_net :: net
  bp_local_addr :: "tcp_socket \<Rightarrow> string + sock_addr"
  bp_watch :: watch_api

text \<open>
  \<open>Fixture::start\<close> on a file system. A panic ends it where it happens; what was written until then stays,
  because the temporary directory is removed by the drop of a finished fixture only.
\<close>

definition fixture_start ::
  "'net ipnet_api \<Rightarrow> 'dt chrono_api \<Rightarrow> ('w, 'net) writer_api \<Rightarrow> 'rd geoip_api \<Rightarrow> bench_env
    \<Rightarrow> bench_platform \<Rightarrow> system_time \<Rightarrow> fs \<Rightarrow> (bench_panic + 'rd fixture) \<times> fs \<times> metric_event list" where
  "fixture_start N C W G E P now fs =
     (if metrics_init (bp_registry P) = None then (Err Bench_Metrics, fs, [])
      else let categories = categories_from_env (be_categories E)
      in case locate_or_build_database N C W E now of
          Inl e \<Rightarrow> (Err e, fs, [])
        | Inr ((p, temp_dir, database), ops) \<Rightarrow>
      let fs' = run_ops fs ops
      in case absolute_path (be_cwd E) p of
          None \<Rightarrow> (Err (Not_Absolute p), fs', [])
        | Some path \<Rightarrow>
      (case load G (view_of fs') (view_of fs') path mmdb_new of
          (Inl e, _, evs) \<Rightarrow> (Err (Bench_Load_Failed e), fs', evs)
        | (Inr _, st, evs) \<Rightarrow>
      (case bp_runtime P of
          Inl e \<Rightarrow> (Err (No_Runtime e), fs', evs)
        | Inr _ \<Rightarrow>
      (case bind_listener (bp_net P) ''127.0.0.1:0'' of
          Inl e \<Rightarrow> (Err (Bench_Bind_Failed e), fs', evs)
        | Inr listener \<Rightarrow>
      (case bp_local_addr P listener of
          Inl e \<Rightarrow> (Err (No_Local_Addr e), fs', evs)
        | Inr addr \<Rightarrow>
      (case watcher_start (bp_watch P) path of
          Inl e \<Rightarrow> (Err (Bench_Watch_Failed e), fs', evs)
        | Inr watched \<Rightarrow>
            (Ok \<lparr>fx_runtime = True, fx_watcher = Some watched, fx_temp_dir = temp_dir, fx_addr = addr,
                 fx_mmdb = st, fx_mmdb_path = path, fx_database = database, fx_categories = categories\<rparr>,
             fs', evs)))))))"

text \<open>The drop: what it does, in order, and the file system it leaves when the removal succeeds.\<close>

datatype drop_action =
    Await_Watcher_Stop path string
  | Shutdown_Runtime nat
  | Remove_Dir_All path

definition fixture_drop :: "'rd fixture \<Rightarrow> drop_action list" where
  "fixture_drop fx =
     (if fx_runtime fx
      then (case fx_watcher fx of Some (dir, name) \<Rightarrow> [Await_Watcher_Stop dir name] | None \<Rightarrow> []) @
           [Shutdown_Runtime RUNTIME_SHUTDOWN]
      else []) @
     (case fx_temp_dir fx of Some dir \<Rightarrow> [Remove_Dir_All dir] | None \<Rightarrow> [])"

fun drop_effect :: "fs \<Rightarrow> drop_action \<Rightarrow> fs" where
  "drop_effect fs (Remove_Dir_All dir) = temp_dir_drop dir fs"
| "drop_effect fs (Await_Watcher_Stop dir name) = fs"
| "drop_effect fs (Shutdown_Runtime timeout) = fs"

text \<open>
  \<open>touch_database\<close>: a new modification time for an existing file. The first two arguments are the
  failures of opening the file for writing and of setting its time, if they fail.
\<close>

definition touch_database ::
  "io_error option \<Rightarrow> io_error option \<Rightarrow> system_time \<Rightarrow> path \<Rightarrow> fs \<Rightarrow> (io_error + unit) \<times> fs" where
  "touch_database fail_open fail_set now p fs =
     (case fs p of
        None \<Rightarrow> (Err IoNotFound, fs)
      | Some f \<Rightarrow>
          (case fail_open of
             Some e \<Rightarrow> (Err e, fs)
           | None \<Rightarrow>
               (case fail_set of
                  Some e \<Rightarrow> (Err e, fs)
                | None \<Rightarrow> (Ok (), fs(p \<mapsto> f\<lparr>file_mtime := now\<rparr>)))))"

subsection \<open>Lookups in the process\<close>

definition SAMPLE :: nat where "SAMPLE = 4096"

fun draws :: "(split_mix \<Rightarrow> 'a \<times> split_mix) \<Rightarrow> nat \<Rightarrow> split_mix \<Rightarrow> 'a list \<times> split_mix" where
  "draws next_value 0 rng = ([], rng)"
| "draws next_value (Suc n) rng =
     (case next_value rng of
        (x, rng1) \<Rightarrow> (case draws next_value n rng1 of (xs, rng2) \<Rightarrow> (x # xs, rng2)))"

text \<open>\<open>0x0A00_0000 | (rng.next_u64() as u32 >> 8)\<close>\<close>

definition listed_ipv4 :: "split_mix \<Rightarrow> ipv4 \<times> split_mix" where
  "listed_ipv4 s = (case next_u64 s of (z, s') \<Rightarrow> (or 0x0A000000 (drop_bit 8 (ucast z)), s'))"

definition lookup_cases :: "(string \<times> ip_addr list) list" where
  "lookup_cases =
     (case draws random_ipv4 SAMPLE (rng_new 1) of (v4s, rng1) \<Rightarrow>
      case draws random_ipv6 SAMPLE rng1 of (v6s, rng2) \<Rightarrow>
      case draws random_ip SAMPLE rng2 of (mixed, rng3) \<Rightarrow>
        [(''random_ipv4'', map V4 v4s), (''random_ipv6'', map V6 v6s), (''random_mixed'', mixed),
         (''listed_10_0_0_0_8'', map V4 (fst (draws listed_ipv4 SAMPLE rng3)))])"

text \<open>The verdicts of the first iterations of a case; \<open>None\<close> is an index out of range.\<close>

definition lookup_iterations ::
  "'rd geoip_api \<Rightarrow> ip_filter \<Rightarrow> 'rd mmdb \<Rightarrow> ip_addr list \<Rightarrow> nat \<Rightarrow> bool list option" where
  "lookup_iterations G flt st ips n =
     those (map (\<lambda>index. map_option (\<lambda>ip. fst (should_drop G flt st ip)) (vec_get ips (index mod SAMPLE))) [0..<n])"

subsection \<open>Paths\<close>

definition normal_component :: "string \<Rightarrow> bool" where
  "normal_component c \<longleftrightarrow> c \<noteq> [] \<and> c \<noteq> ''.'' \<and> CHR ''/'' \<notin> set c"

lemma split_on_not_Nil [simp]: "split_on c s \<noteq> []"
  by (induction s) (auto split: list.splits)

lemma split_on_sep: "split_on c (c # s) = [] # split_on c s"
  by (cases "split_on c s") simp_all

lemma split_on_piece: "c \<notin> set p \<Longrightarrow> split_on c p = [p]"
  by (induction p) auto

lemma split_on_append: "c \<notin> set p \<Longrightarrow> split_on c (p @ c # s) = p # split_on c s"
  by (induction p) (auto simp: split_on_sep simp del: split_on.simps(2) split: list.splits, simp)

lemma split_path_str:
  "p \<noteq> [] \<Longrightarrow> list_all normal_component p \<Longrightarrow> split_on CHR ''/'' (path_str p) = [] # p"
proof (induction p)
  case (Cons c p)
  show ?case
  proof (cases p)
    case Nil
    with Cons.prems show ?thesis
      by (simp add: path_str_def split_on_sep split_on_piece normal_component_def del: split_on.simps(2))
  next
    case (Cons d q)
    with Cons.IH Cons.prems have "split_on CHR ''/'' (path_str p) = [] # p" by simp
    then have "split_on CHR ''/'' (d @ path_str q) = p"
      by (simp add: Cons path_str_def split_on_sep del: split_on.simps(2))
    with Cons.prems Cons show ?thesis
      by (simp add: path_str_def split_on_sep split_on_append normal_component_def del: split_on.simps(2))
  qed
qed simp

lemma absolute_path_str:
  assumes "p \<noteq> []" "list_all normal_component p"
  shows "absolute_path cwd (path_str p) = Some p"
proof -
  have "path_str p \<noteq> []" "hd (path_str p) = CHR ''/''" using assms(1) by (cases p; simp add: path_str_def)+
  moreover have "filter (\<lambda>c. c \<noteq> [] \<and> c \<noteq> ''.'') p = p"
    using assms(2) by (intro filter_True) (auto simp: list_all_iff normal_component_def)
  ultimately show ?thesis by (simp add: absolute_path_def split_path_str [OF assms])
qed

lemma normal_bench_dir:
  "list_all normal_component (be_temp E) \<Longrightarrow> list_all normal_component (bench_dir E @ [''synthetic.mmdb''])"
proof -
  have "CHR ''/'' \<notin> set (show_nat n)" for n
    using show_nat_digits [of n] by (auto simp: list_all_iff is_digit_def)
  then show "list_all normal_component (be_temp E) \<Longrightarrow> ?thesis" by (simp add: bench_dir_def normal_component_def)
qed

subsection \<open>What is written\<close>

definition below_dir :: "path \<Rightarrow> path \<Rightarrow> bool" where
  "below_dir dir p \<longleftrightarrow> take (length dir) p = dir"

lemma synthetic_database_frame:
  assumes "synthetic_database N C W now (dir @ [name]) = Some (n, ops)" "\<not> below_dir dir q"
  shows "run_ops fs ops q = fs q"
proof -
  from assms(1) obtain ipsets r where "write_mmdb W no_faults now ipsets 1700000000 (dir @ [name]) = (r, ops)"
    by (auto simp: synthetic_database_def split: option.splits sum.splits prod.splits)
  from write_mmdb_frame [OF this, of q fs]
  consider "q = dir @ [name]" | "q = with_extension (dir @ [name]) ''tmp''" | "run_ops fs ops q = fs q" by blast
  then show ?thesis
  proof cases
    case 2
    with with_extension_butlast [of "dir @ [name]" "''tmp''"] have "butlast q = dir" by simp
    then have "below_dir dir q" by (metis below_dir_def butlast_conv_take length_butlast)
    with assms(2) show ?thesis by simp
  qed (use assms(2) in \<open>simp_all add: below_dir_def\<close>)
qed

lemma locate_given:
  assumes "locate_or_build_database N C W E now = Ok ((p, temp_dir, text'), ops)"
    and "be_mmdb E \<noteq> None \<or> be_is_file E ''firehol.mmdb''"
  shows "temp_dir = None \<and> ops = []"
  using assms by (auto simp: locate_or_build_database_def split: option.splits if_splits)

lemma locate_built:
  assumes "locate_or_build_database N C W E now = Ok ((p, temp_dir, text'), ops)"
    and "\<not> (be_mmdb E \<noteq> None \<or> be_is_file E ''firehol.mmdb'')"
  shows "temp_dir = Some (bench_dir E) \<and> (\<exists>n. synthetic_database N C W now (bench_dir E @ [''synthetic.mmdb'']) = Some (n, ops))"
  using assms
  by (auto simp: locate_or_build_database_def Let_def split: option.splits if_splits sum.splits prod.splits)

lemma fixture_start_cases:
  assumes "fixture_start N C W G E P now fs = (r, fs', evs)"
  obtains (early) e where "r = Err e" "fs' = fs"
  | (located) p temp_dir text' ops where
    "locate_or_build_database N C W E now = Ok ((p, temp_dir, text'), ops)" "fs' = run_ops fs ops"
    "\<And>fx. r = Ok fx \<Longrightarrow> fx_temp_dir fx = temp_dir \<and> fx_runtime fx \<and> fx_watcher fx \<noteq> None \<and> fx_database fx = text'"
  using assms
  by (fastforce simp: fixture_start_def Let_def split: if_splits sum.splits option.splits prod.splits)

subsection \<open>What the synthetic database says\<close>

lemma list_all2_ex:
  "list_all2 P xs ys \<Longrightarrow> y \<in> set ys \<Longrightarrow> \<exists>x\<in>set xs. P x y"
  "list_all2 P xs ys \<Longrightarrow> x \<in> set xs \<Longrightarrow> \<exists>y\<in>set ys. P x y"
  by (auto simp: list_all2_conv_all_nth in_set_conv_nth) (metis nth_mem)+

lemma rows_tagged:
  "set (rows covers a ipsets) =
     {(file_name i, m) | i m n. i \<in> set ipsets \<and> (m, n) \<in> set (tagged (sections i)) \<and> covers n a}"
  by (fastforce simp: set_rows set_tagged)

lemma rows_of_contents:
  assumes "list_all2 (list_of_entries N) ls ipsets"
  shows "(\<exists>(name, m)\<in>set (rows covers a ipsets). category m \<in> cats) \<longleftrightarrow>
    (\<exists>(f, c, es)\<in>set ls. c \<in> cats \<and> (\<exists>e\<in>set es. covers (the (parse_network N e)) a))"
proof
  assume "\<exists>(name, m)\<in>set (rows covers a ipsets). category m \<in> cats"
  then obtain i m n where i: "i \<in> set ipsets" "(m, n) \<in> set (tagged (sections i))" "covers n a" "category m \<in> cats"
    by (auto simp: rows_tagged)
  from list_all2_ex(1) [OF assms i(1)] obtain l where "l \<in> set ls" "list_of_entries N l i" by blast
  with i(2-4) show "\<exists>(f, c, es)\<in>set ls. c \<in> cats \<and> (\<exists>e\<in>set es. covers (the (parse_network N e)) a)"
    by (fastforce simp: list_of_entries_def)
next
  assume "\<exists>(f, c, es)\<in>set ls. c \<in> cats \<and> (\<exists>e\<in>set es. covers (the (parse_network N e)) a)"
  then obtain f c es e where l: "(f, c, es) \<in> set ls" "c \<in> cats" "e \<in> set es" "covers (the (parse_network N e)) a"
    by blast
  from list_all2_ex(2) [OF assms l(1)] obtain i where "i \<in> set ipsets" "list_of_entries N (f, c, es) i" by blast
  with l(2-4) show "\<exists>(name, m)\<in>set (rows covers a ipsets). category m \<in> cats"
    by (fastforce simp: list_of_entries_def rows_tagged)
qed

text \<open>The verdict of a filter by categories on a database made of such lists.\<close>

definition contents_listed ::
  "'net ipnet_api \<Rightarrow> ('net \<Rightarrow> ipv4 \<Rightarrow> bool) \<Rightarrow> string list \<Rightarrow> (string \<times> string \<times> string list) list \<Rightarrow> ip_addr \<Rightarrow> bool" where
  "contents_listed N covers cats ls ip =
     (case ip of
        V6 _ \<Rightarrow> False
      | V4 a \<Rightarrow> (\<exists>(f, c, es)\<in>set ls. c \<in> set cats \<and> (\<exists>e\<in>set es. covers (the (parse_network N e)) a)))"

lemma contents_verdict:
  assumes "mmdb_format W covers content G" "serialise W epoch ipsets = Ok bs"
    and "snapshot st = Some sn" "g_from_bytes G bs = Inr (reader sn)"
    and "list_all2 (list_of_entries N) ls ipsets"
  shows "fst (should_drop G (new_filter (set cats) {}) st ip) \<longleftrightarrow> contents_listed N covers cats ls ip"
proof (cases ip)
  case (V4 a)
  have "fst (should_drop G (new_filter (set cats) {}) st (V4 a)) \<longleftrightarrow>
      (\<exists>(name, m)\<in>set (rows covers a ipsets). category m \<in> set cats)"
    unfolding should_drop_rows [OF serialised_find_entry(1) [OF assms(1-4)]] by (simp add: new_filter_def)
  with V4 rows_of_contents [OF assms(5)] show ?thesis by (simp add: contents_listed_def)
next
  case (V6 b)
  with serialised_find_entry(2) [OF assms(1-4)] show ?thesis by (simp add: should_drop_iff contents_listed_def)
qed

subsection \<open>The sample addresses\<close>

lemma draws_set: "x \<in> set (fst (draws f n rng)) \<Longrightarrow> \<exists>s. x = fst (f s)"
  by (induction n arbitrary: rng) (auto simp: case_prod_beta)

lemma length_draws [simp]: "length (fst (draws f n rng)) = n"
  by (induction n arbitrary: rng) (auto simp: case_prod_beta)

lemma listed_ipv4_range: "and (fst (listed_ipv4 s)) 0xFF000000 = 0x0A000000"
proof -
  have "and (or 0x0A000000 (drop_bit 8 z)) 0xFF000000 = (0x0A000000 :: u32)" for z :: u32
  proof -
    have "(0xFF000000 :: u32) = not (mask 24)" by (simp add: mask_eq_exp_minus_1)
    then have "and (drop_bit 8 z) 0xFF000000 = push_bit 24 (drop_bit 32 z)"
      by (simp only: push_bit_drop_bit [symmetric] drop_bit_drop_bit) simp
    also have "drop_bit 32 z = 0" by (rule bit_eqI) (simp add: bit_drop_bit_eq bit_simps)
    finally show ?thesis by (simp add: word_ao_dist)
  qed
  then show ?thesis by (simp add: listed_ipv4_def next_u64_def Let_def)
qed

lemma lookup_case_members:
  assumes "(name, ips) \<in> set lookup_cases"
  shows "length ips = SAMPLE"
    and "name = ''listed_10_0_0_0_8'' \<Longrightarrow> ip \<in> set ips \<Longrightarrow> \<exists>a. ip = V4 a \<and> and a 0xFF000000 = 0x0A000000"
    and "name = ''random_ipv6'' \<Longrightarrow> ip \<in> set ips \<Longrightarrow> \<exists>b. ip = V6 b"
proof -
  obtain v4s rng1 where r1: "draws random_ipv4 SAMPLE (rng_new 1) = (v4s, rng1)" by fastforce
  obtain v6s rng2 where r2: "draws random_ipv6 SAMPLE rng1 = (v6s, rng2)" by fastforce
  obtain mixed rng3 where r3: "draws random_ip SAMPLE rng2 = (mixed, rng3)" by fastforce
  note lengths = length_draws [of random_ipv4 SAMPLE "rng_new 1"] length_draws [of random_ipv6 SAMPLE rng1]
    length_draws [of random_ip SAMPLE rng2]
  have cases: "lookup_cases =
      [(''random_ipv4'', map V4 v4s), (''random_ipv6'', map V6 v6s), (''random_mixed'', mixed),
       (''listed_10_0_0_0_8'', map V4 (fst (draws listed_ipv4 SAMPLE rng3)))]"
    by (simp add: lookup_cases_def r1 r2 r3)
  show "length ips = SAMPLE" using assms lengths by (auto simp: cases r1 r2 r3)
  show "name = ''random_ipv6'' \<Longrightarrow> ip \<in> set ips \<Longrightarrow> \<exists>b. ip = V6 b" using assms by (auto simp: cases)
  assume "name = ''listed_10_0_0_0_8''" "ip \<in> set ips"
  with assms obtain a where "ip = V4 a" "a \<in> set (fst (draws listed_ipv4 SAMPLE rng3))" by (auto simp: cases)
  with draws_set [of a listed_ipv4] listed_ipv4_range show "\<exists>a. ip = V4 a \<and> and a 0xFF000000 = 0x0A000000" by blast
qed

lemma map_constant: "(\<And>i. f i = c) \<Longrightarrow> map f [0..<n] = replicate n c"
  by (simp add: list_eq_iff_nth_eq)

lemma those_Some: "those (map (\<lambda>x. Some (f x)) xs) = Some (map f xs)"
  by (induction xs) simp_all

lemma iterations_in_range:
  assumes "length ips = SAMPLE"
  shows "lookup_iterations G flt st ips n =
    Some (map (\<lambda>i. fst (should_drop G flt st (ips ! (i mod SAMPLE)))) [0..<n])"
proof -
  have "vec_get ips (i mod SAMPLE) = Some (ips ! (i mod SAMPLE))" for i
    using assms by (simp add: vec_get_def SAMPLE_def)
  then show ?thesis by (simp add: lookup_iterations_def those_Some)
qed

subsection \<open>A start with the synthetic database\<close>

definition platform_ok :: "bench_platform \<Rightarrow> path \<Rightarrow> bool" where
  "platform_ok P dir \<longleftrightarrow>
     metrics_init (bp_registry P) \<noteq> None \<and> bp_runtime P = Ok () \<and>
     (case bind_listener (bp_net P) ''127.0.0.1:0'' of
        Inl _ \<Rightarrow> False
      | Inr listener \<Rightarrow> is_ok (bp_local_addr P listener)) \<and>
     debouncer_new (bp_watch P) = Ok () \<and> watch (bp_watch P) dir = Ok ()"

definition no_database_given :: "bench_env \<Rightarrow> bool" where
  "no_database_given E \<longleftrightarrow>
     be_mmdb E = None \<and> \<not> be_is_file E ''firehol.mmdb'' \<and> be_create_dir E (bench_dir E) = Ok () \<and>
     list_all normal_component (be_temp E)"

lemma fixture_synthetic:
  assumes F: "mmdb_format W covers content G"
    and N: "\<And>a p. p \<le> 32 \<Longrightarrow> net_from_str N (show_ipv4 a @ ''/'' @ show_nat p) \<noteq> None"
    and C: "naive_parse C ''Thu Sep 10 23:59:49 UTC 2026'' date_format \<noteq> None"
    and W: "\<And>ipsets. is_ok (serialise W 1700000000 ipsets)"
    and E: "no_database_given E" and P: "platform_ok P (bench_dir E)"
  obtains fx fs' evs abuse nets attacks where
    "fixture_start N C W G E P now fs = (Ok fx, fs', evs)"
    "fx_mmdb_path fx = bench_dir E @ [''synthetic.mmdb'']" "fs' (fx_mmdb_path fx) \<noteq> None"
    "fx_watcher fx = Some (bench_dir E, ''synthetic.mmdb'')"
    "fx_categories fx = categories_from_env (be_categories E)"
    "counter_total MMDB_FILE_LOADED evs = 1"
    "networks_drawn abuse nets attacks"
    "\<And>ip. fst (should_drop G (fixture_filter fx) (fx_mmdb fx) ip) \<longleftrightarrow>
       contents_listed N covers (fx_categories fx) (synthetic_contents abuse nets attacks) ip"
proof -
  let ?dir = "bench_dir E" and ?path = "bench_dir E @ [''synthetic.mmdb'']"
  obtain ops abuse nets attacks ipsets bs where db:
    "synthetic_database N C W now ?path = Some (140014, ops)"
    "run_ops fs ops ?path = Some \<lparr>file_content = bs, file_mtime = now\<rparr>"
    "serialise W 1700000000 ipsets = Ok bs"
    "list_all2 (list_of_entries N) (synthetic_contents abuse nets attacks) ipsets"
    "networks_drawn abuse nets attacks"
    using synthetic_database_lists [OF N C W, of now ?path fs] by blast
  obtain rd where rd: "g_from_bytes G bs = Inr rd" using serialise_lookup [OF F db(3)] by blast
  have located: "locate_or_build_database N C W E now =
      Ok ((path_str ?path, Some ?dir, ''synthetic, '' @ show_nat 140014 @ '' networks in categories unroutable/abuse/attacks''), ops)"
    using E db(1) by (simp add: locate_or_build_database_def no_database_given_def Let_def)
  have abs: "absolute_path (be_cwd E) (path_str ?path) = Some ?path"
    using E by (intro absolute_path_str normal_bench_dir) (simp_all add: no_database_given_def)
  have loaded: "load G (view_of (run_ops fs ops)) (view_of (run_ops fs ops)) ?path mmdb_new =
      (Ok (), \<lparr>snapshot = Some \<lparr>reader = rd, modified = Some now\<rparr>\<rparr>,
       [Set_Gauge MMDB_NODE_COUNT (uint (g_node_count G rd)), Inc MMDB_FILE_LOADED [path_str ?path]])"
    using db(2) rd by (simp add: mmdb_defs view_of_def mmdb_new_def)
  from P obtain listener addr where sock: "bind_listener (bp_net P) ''127.0.0.1:0'' = Ok listener"
    "bp_local_addr P listener = Ok addr"
    by (auto simp: platform_ok_def is_ok_iff split: sum.splits)
  from P have watched: "watcher_start (bp_watch P) ?path = Ok (?dir, ''synthetic.mmdb'')"
    by (simp add: watcher_start_Ok_iff platform_ok_def)
  obtain fx where fx: "fixture_start N C W G E P now fs = (Ok fx, run_ops fs ops,
       [Set_Gauge MMDB_NODE_COUNT (uint (g_node_count G rd)), Inc MMDB_FILE_LOADED [path_str ?path]])"
    "fx_mmdb_path fx = ?path" "fx_watcher fx = Some (?dir, ''synthetic.mmdb'')"
    "fx_categories fx = categories_from_env (be_categories E)"
    "fx_mmdb fx = \<lparr>snapshot = Some \<lparr>reader = rd, modified = Some now\<rparr>\<rparr>"
    using P located abs loaded sock watched by (auto simp: fixture_start_def platform_ok_def Let_def)
  have "fst (should_drop G (fixture_filter fx) (fx_mmdb fx) ip) \<longleftrightarrow>
      contents_listed N covers (fx_categories fx) (synthetic_contents abuse nets attacks) ip" for ip
    unfolding fixture_filter_def
    by (rule contents_verdict [OF F db(3) _ _ db(4), where sn = "\<lparr>reader = rd, modified = Some now\<rparr>"])
       (simp_all add: fx(5) rd)
  with fx db(2,5) show thesis by (intro that [of fx]) (auto simp: metric_defs)
qed

section \<open>Properties\<close>

text \<open>
  The benchmark leaves the file system as it found it. With a database given by the environment or found
  in the working directory, start and drop change no file at all. Otherwise everything they write is
  below the process's own temporary directory, of which nothing is left after the drop of a started
  fixture; the watcher is stopped before the runtime and the directory is removed last. A start that
  panics leaves at most that directory behind.
\<close>

theorem fixture_keeps_files:
  assumes "fixture_start N C W G E P now fs = (r, fs', evs)"
  defines "after \<equiv> (case r of Inl _ \<Rightarrow> fs' | Inr fx \<Rightarrow> foldl drop_effect fs' (fixture_drop fx))"
  shows "(be_mmdb E \<noteq> None \<or> be_is_file E ''firehol.mmdb'' \<longrightarrow> fs' = fs \<and> after = fs) \<and>
    (\<forall>q. take (length (bench_dir E)) q \<noteq> bench_dir E \<longrightarrow> fs' q = fs q \<and> after q = fs q) \<and>
    (\<forall>fx. r = Ok fx \<longrightarrow>
       (\<exists>dir name. fx_watcher fx = Some (dir, name) \<and>
          fixture_drop fx = [Await_Watcher_Stop dir name, Shutdown_Runtime 2000] @
            (if be_mmdb E \<noteq> None \<or> be_is_file E ''firehol.mmdb'' then [] else [Remove_Dir_All (bench_dir E)])) \<and>
       (\<not> (be_mmdb E \<noteq> None \<or> be_is_file E ''firehol.mmdb'') \<longrightarrow>
          (\<forall>q. take (length (bench_dir E)) q = bench_dir E \<longrightarrow> after q = None)))"
  using assms(1)
proof (cases rule: fixture_start_cases)
  case early
  then show ?thesis by (simp add: after_def)
next
  case (located p temp_dir text' ops)
  let ?given = "be_mmdb E \<noteq> None \<or> be_is_file E ''firehol.mmdb''"
  have temp: "temp_dir = (if ?given then None else Some (bench_dir E))"
    using locate_given [OF located(1)] locate_built [OF located(1)] by auto
  have ops: "?given \<Longrightarrow> ops = []" using locate_given [OF located(1)] by blast
  have frame: "fs' q = fs q" if "take (length (bench_dir E)) q \<noteq> bench_dir E" for q
    using ops synthetic_database_frame [of N C W now "bench_dir E" "''synthetic.mmdb''" _ ops q fs]
      locate_built [OF located(1)] that
    by (cases ?given) (auto simp: located(2) below_dir_def)
  have drop: "fixture_drop fx = [Await_Watcher_Stop dir name, Shutdown_Runtime 2000] @
      (if ?given then [] else [Remove_Dir_All (bench_dir E)])"
    if "r = Ok fx" "fx_watcher fx = Some (dir, name)" for fx dir name
    using located(3) [OF that(1)] that(2) temp by (auto simp: fixture_drop_def RUNTIME_SHUTDOWN_def)
  show ?thesis
  proof (cases r)
    case (Inl e)
    with frame ops located(2) show ?thesis by (auto simp: after_def)
  next
    case (Inr fx)
    from located(3) [OF this] obtain dir name where w: "fx_watcher fx = Some (dir, name)" by auto
    have "after = (if ?given then fs' else temp_dir_drop (bench_dir E) fs')"
      by (simp add: after_def Inr drop [OF Inr w])
    with frame ops located(2) drop [OF Inr w] w Inr show ?thesis
      by (auto simp: temp_dir_drop_def)
  qed
qed


subsection \<open>A sample environment\<close>

definition sample_env :: "string option \<Rightarrow> bench_env" where
  "sample_env mmdb =
     \<lparr>be_mmdb = mmdb, be_categories = None, be_cwd = [''home''], be_temp = [''tmp''], be_pid = 7,
      be_is_file = (\<lambda>s. s = ''/data/f.mmdb''), be_create_dir = (\<lambda>_. Ok ())\<rparr>"

definition loopback_net :: net where
  "loopback_net =
     \<lparr>lookup_host = (\<lambda>_. Ok [\<lparr>is_ipv4 = True, addr_text = ''127.0.0.1:0''\<rparr>]), socket_error = (\<lambda>_. None),
      reuseaddr_error = None, nodelay_error = None, bind_error = (\<lambda>_. None), listen_error = None\<rparr>"

definition bench_machine :: bench_platform where
  "bench_machine =
     \<lparr>bp_registry = [], bp_runtime = Ok (), bp_net = loopback_net,
      bp_local_addr = (\<lambda>_. Ok \<lparr>is_ipv4 = True, addr_text = ''127.0.0.1:40000''\<rparr>),
      bp_watch = \<lparr>debouncer_new = Ok (), watch = (\<lambda>_. Ok ())\<rparr>\<rparr>"

lemma sample_env_ok: "no_database_given (sample_env None)"
  by (simp add: no_database_given_def sample_env_def normal_component_def)

lemma bench_machine_ok: "platform_ok bench_machine dir"
  by (simp add: platform_ok_def bench_machine_def metrics_init_empty bind_listener_def loopback_net_def
      new_socket_def sock_call_def is_ok_iff)

lemma test_date: "naive_parse test_chrono ''Thu Sep 10 23:59:49 UTC 2026'' date_format \<noteq> None"
  by (simp add: test_chrono_def date_format_def)

lemma sample_parses: "p \<le> 32 \<Longrightarrow> net_from_str ref_ipnet (show_ipv4 a @ ''/'' @ show_nat p) \<noteq> None"
  using ref_net_from_str [of p a] by simp

lemma default_categories: "categories_from_env (be_categories (sample_env mmdb)) = [''unroutable'', ''abuse'']"
  by (simp add: sample_env_def) code_simp

lemma bench_dir_sample: "bench_dir (sample_env mmdb) = [''tmp'', ''spoa-bench-7'']"
  by (simp add: bench_dir_def sample_env_def show_nat.simps digit_chars)

theorem fixture_keeps_files_witness:
  "\<exists>fx fs' evs. fixture_start ref_ipnet test_chrono ref_writer ref_geoip (sample_env None) bench_machine 5 (\<lambda>_. None) =
      (Ok fx, fs', evs) \<and>
    fs' [''tmp'', ''spoa-bench-7'', ''synthetic.mmdb''] \<noteq> None \<and>
    foldl drop_effect fs' (fixture_drop fx) [''tmp'', ''spoa-bench-7'', ''synthetic.mmdb''] = None \<and>
    fs' [''etc'', ''passwd''] = None"
proof -
  obtain fx fs' evs where start: "fixture_start ref_ipnet test_chrono ref_writer ref_geoip (sample_env None) bench_machine 5 (\<lambda>_. None) =
      (Ok fx, fs', evs)"
    "fx_mmdb_path fx = bench_dir (sample_env None) @ [''synthetic.mmdb'']" "fs' (fx_mmdb_path fx) \<noteq> None"
    by (rule fixture_synthetic [OF ref_format.mmdb_format_axioms sample_parses test_date ref_serialises
          sample_env_ok bench_machine_ok, of 5 "\<lambda>_. None"])
  have given: "\<not> (be_mmdb (sample_env None) \<noteq> None \<or> be_is_file (sample_env None) ''firehol.mmdb'')"
    by (simp add: sample_env_def)
  from fixture_keeps_files [OF start(1)] given have
    "foldl drop_effect fs' (fixture_drop fx) [''tmp'', ''spoa-bench-7'', ''synthetic.mmdb''] = None"
    "fs' [''etc'', ''passwd''] = None"
    by (auto simp: bench_dir_sample)
  moreover have "fs' [''tmp'', ''spoa-bench-7'', ''synthetic.mmdb''] \<noteq> None"
    using start(2,3) by (simp add: bench_dir_sample)
  ultimately show ?thesis using start(1) by blast
qed


text \<open>
  C39. Without a given database, starting the benchmark's agent builds, loads and watches the synthetic one, and
  the agent then drops exactly the IPv4 addresses that an entry of a list with one of the chosen categories
  covers, of the fixed reserved ranges and the 140000 distinct random networks that were drawn; the load is counted once.
\<close>

theorem fixture_serves_synthetic:
  assumes "mmdb_format W covers content G"
    and "\<And>a p. p \<le> 32 \<Longrightarrow> net_from_str N (show_ipv4 a @ ''/'' @ show_nat p) \<noteq> None"
    and "naive_parse C ''Thu Sep 10 23:59:49 UTC 2026'' date_format \<noteq> None"
    and "\<And>ipsets. is_ok (serialise W 1700000000 ipsets)"
    and "no_database_given E" and "platform_ok P (bench_dir E)"
  shows "\<exists>fx fs' evs abuse nets attacks.
    fixture_start N C W G E P now fs = (Ok fx, fs', evs) \<and>
    fx_watcher fx = Some (bench_dir E, ''synthetic.mmdb'') \<and>
    counter_total MMDB_FILE_LOADED evs = 1 \<and>
    networks_drawn abuse nets attacks \<and>
    (\<forall>b. \<not> fst (should_drop G (fixture_filter fx) (fx_mmdb fx) (V6 b))) \<and>
    (\<forall>a. fst (should_drop G (fixture_filter fx) (fx_mmdb fx) (V4 a)) \<longleftrightarrow>
       (\<exists>(c, es)\<in>{(''unroutable'', UNROUTABLE), (''abuse'', map (network_entry 32) abuse),
                   (''abuse'', map (network_entry 24) nets), (''attacks'', map (network_entry 20) attacks)}.
          c \<in> set (categories_from_env (be_categories E)) \<and>
          (\<exists>e\<in>set es. covers (the (parse_network N e)) a)))"
proof -
  obtain fx fs' evs abuse nets attacks where start:
    "fixture_start N C W G E P now fs = (Ok fx, fs', evs)"
    "fx_watcher fx = Some (bench_dir E, ''synthetic.mmdb'')"
    "fx_categories fx = categories_from_env (be_categories E)"
    "counter_total MMDB_FILE_LOADED evs = 1"
    "networks_drawn abuse nets attacks"
    "\<And>ip. fst (should_drop G (fixture_filter fx) (fx_mmdb fx) ip) \<longleftrightarrow>
       contents_listed N covers (fx_categories fx) (synthetic_contents abuse nets attacks) ip"
    by (rule fixture_synthetic [OF assms, of now fs]; (assumption | blast))
  then show ?thesis
    by (intro exI [of _ fx] exI [of _ fs'] exI [of _ evs] exI [of _ abuse] exI [of _ nets] exI [of _ attacks])
       (simp add: contents_listed_def synthetic_contents_def)
qed

theorem fixture_serves_synthetic_witness:
  "\<exists>fx fs' evs. fixture_start ref_ipnet test_chrono ref_writer ref_geoip (sample_env None) bench_machine 5 (\<lambda>_. None) =
      (Ok fx, fs', evs) \<and>
    fst (should_drop ref_geoip (fixture_filter fx) (fx_mmdb fx) (V4 0xC0A80101)) \<and>
    \<not> fst (should_drop ref_geoip (fixture_filter fx) (fx_mmdb fx) (V6 1))"
proof -
  have "cidr_covers (the (parse_network ref_ipnet ''192.168.0.0/16'')) 0xC0A80101" by code_simp
  moreover have "''192.168.0.0/16'' \<in> set UNROUTABLE" by (simp add: UNROUTABLE_def)
  ultimately show ?thesis
    using fixture_serves_synthetic [OF ref_format.mmdb_format_axioms sample_parses test_date ref_serialises
        sample_env_ok bench_machine_ok, of 5 "\<lambda>_. None"]
    by (fastforce simp: default_categories)
qed

text \<open>
  The lookups the benchmark measures are the ones it announces: no iteration of a case runs out of its
  sample, with the synthetic database and the category \<open>unroutable\<close> every lookup of the case
  \<open>listed_10_0_0_0_8\<close> finds a record and drops the address, and every lookup of the case \<open>random_ipv6\<close> finds none.
\<close>

theorem lookup_benchmark_cases:
  assumes "mmdb_format W covers content G"
    and "\<And>a p. p \<le> 32 \<Longrightarrow> net_from_str N (show_ipv4 a @ ''/'' @ show_nat p) \<noteq> None"
    and "naive_parse C ''Thu Sep 10 23:59:49 UTC 2026'' date_format \<noteq> None"
    and "\<And>ipsets. is_ok (serialise W 1700000000 ipsets)"
    and "no_database_given E" and "platform_ok P (bench_dir E)"
    and "''unroutable'' \<in> set (categories_from_env (be_categories E))"
    and "\<And>a. and a 0xFF000000 = 0x0A000000 \<Longrightarrow> covers (the (parse_network N ''10.0.0.0/8'')) a"
  shows "\<exists>fx fs' evs. fixture_start N C W G E P now fs = (Ok fx, fs', evs) \<and>
    (\<forall>(name, ips)\<in>set lookup_cases. \<forall>n. \<exists>verdicts.
       lookup_iterations G (fixture_filter fx) (fx_mmdb fx) ips n = Some verdicts \<and> length verdicts = n \<and>
       (name = ''listed_10_0_0_0_8'' \<longrightarrow> verdicts = replicate n True) \<and>
       (name = ''random_ipv6'' \<longrightarrow> verdicts = replicate n False))"
proof -
  obtain fx fs' evs abuse nets attacks where start:
    "fixture_start N C W G E P now fs = (Ok fx, fs', evs)"
    "fx_categories fx = categories_from_env (be_categories E)"
    "\<And>ip. fst (should_drop G (fixture_filter fx) (fx_mmdb fx) ip) \<longleftrightarrow>
       contents_listed N covers (fx_categories fx) (synthetic_contents abuse nets attacks) ip"
    by (rule fixture_synthetic [OF assms(1-6), of now fs]; (assumption | blast))
  have "''10.0.0.0/8'' \<in> set UNROUTABLE" by (simp add: UNROUTABLE_def)
  then have listed: "fst (should_drop G (fixture_filter fx) (fx_mmdb fx) (V4 a))" if "and a 0xFF000000 = 0x0A000000" for a
    using assms(7,8) that by (auto simp: start(2,3) contents_listed_def synthetic_contents_def)
  have absent: "\<not> fst (should_drop G (fixture_filter fx) (fx_mmdb fx) (V6 b))" for b
    by (simp add: start(3) contents_listed_def)
  have "\<exists>verdicts.
       lookup_iterations G (fixture_filter fx) (fx_mmdb fx) ips n = Some verdicts \<and> length verdicts = n \<and>
       (name = ''listed_10_0_0_0_8'' \<longrightarrow> verdicts = replicate n True) \<and>
       (name = ''random_ipv6'' \<longrightarrow> verdicts = replicate n False)"
    if "(name, ips) \<in> set lookup_cases" for name ips n
  proof -
    note sample = lookup_case_members [OF that]
    let ?v = "\<lambda>i. fst (should_drop G (fixture_filter fx) (fx_mmdb fx) (ips ! (i mod SAMPLE)))"
    have member: "ips ! (i mod SAMPLE) \<in> set ips" for i
      using sample(1) by (simp add: SAMPLE_def)
    have "name = ''listed_10_0_0_0_8'' \<longrightarrow> map ?v [0..<n] = replicate n True"
      using sample(2) [OF _ member] listed by (intro impI map_constant) metis
    moreover have "name = ''random_ipv6'' \<longrightarrow> map ?v [0..<n] = replicate n False"
      using sample(3) [OF _ member] absent by (intro impI map_constant) metis
    ultimately show ?thesis by (simp add: iterations_in_range [OF sample(1)])
  qed
  with start(1) show ?thesis by blast
qed

lemma ten_covered:
  assumes "and a 0xFF000000 = 0x0A000000"
  shows "cidr_covers (the (parse_network ref_ipnet ''10.0.0.0/8'')) a"
proof -
  have "addr_bits a ! i = addr_bits 0x0A000000 ! i" if "i < 8" for i
  proof -
    have "bit (0xFF000000 :: u32) (31 - i)"
      using that by (cases i rule: nat.exhaust) (auto simp: numeral_eq_Suc less_Suc_eq)
    then have "bit a (31 - i) \<longleftrightarrow> bit (and a 0xFF000000) (31 - i)" by (simp add: bit_and_iff)
    with that assms show ?thesis by (simp add: addr_bits_nth)
  qed
  then have "take 8 (addr_bits a) = take 8 (addr_bits 0x0A000000)" by (intro nth_equalityI) simp_all
  moreover have "the (parse_network ref_ipnet ''10.0.0.0/8'') = \<lparr>cidr_addr = 0x0A000000, cidr_len = 8\<rparr>" by code_simp
  ultimately show ?thesis by (simp add: cidr_covers_def)
qed

theorem lookup_benchmark_cases_witness:
  "\<exists>fx fs' evs. fixture_start ref_ipnet test_chrono ref_writer ref_geoip (sample_env None) bench_machine 5 (\<lambda>_. None) =
      (Ok fx, fs', evs) \<and>
    (\<forall>(name, ips)\<in>set lookup_cases. lookup_iterations ref_geoip (fixture_filter fx) (fx_mmdb fx) ips 5000 \<noteq> None)"
proof -
  have "''unroutable'' \<in> set (categories_from_env (be_categories (sample_env None)))"
    by (simp add: default_categories)
  from lookup_benchmark_cases [OF ref_format.mmdb_format_axioms sample_parses test_date ref_serialises
      sample_env_ok bench_machine_ok this ten_covered, of 5 "\<lambda>_. None"]
  obtain fx fs' evs where start: "fixture_start ref_ipnet test_chrono ref_writer ref_geoip (sample_env None) bench_machine 5 (\<lambda>_. None) =
      (Ok fx, fs', evs)"
    and run: "\<forall>(name, ips)\<in>set lookup_cases. \<forall>n. \<exists>verdicts.
       lookup_iterations ref_geoip (fixture_filter fx) (fx_mmdb fx) ips n = Some verdicts \<and> length verdicts = n \<and>
       (name = ''listed_10_0_0_0_8'' \<longrightarrow> verdicts = replicate n True) \<and>
       (name = ''random_ipv6'' \<longrightarrow> verdicts = replicate n False)"
    by blast
  have "\<forall>(name, ips)\<in>set lookup_cases. lookup_iterations ref_geoip (fixture_filter fx) (fx_mmdb fx) ips 5000 \<noteq> None"
    using run by blast
  with start show ?thesis by blast
qed

end
