(* ===== verification/Spop_Client.thy ===== *)
theory Spop_Client
  imports Codec Net_Addr
begin

text \<open>
  \<open>benches/spoe/client.rs\<close>: the SPOP client that checks the agent from HAProxy's side. The
  variable-length integers, the frames, the validation of an acknowledgement and the accounting
  of pipelined requests in a 64-bit mask. Integers keep their width; a shift takes its distance
  modulo 64, as an optimised build does.
\<close>

unbundle bit_operations_syntax

subsection \<open>Variable-length integers\<close>

text \<open>\<open>n as u8\<close>.\<close>

definition as_u8 :: "u64 \<Rightarrow> u8" where "as_u8 n = ucast n"

text \<open>The loop's variable as a natural number.\<close>

lemma unat_tail: "128 \<le> n \<Longrightarrow> unat (drop_bit 7 (n - 128 :: u64)) = (unat n - 128) div 128"
  by (simp add: drop_bit_eq_div unat_div_distrib unat_sub)

function put_varint_tail :: "u64 \<Rightarrow> bytes" where
  "put_varint_tail n =
     (if n < 128 then [as_u8 n]
      else (as_u8 n OR 0x80) # put_varint_tail (drop_bit 7 (n - 128)))"
  by pat_completeness auto

termination
proof (relation "measure unat")
  fix n :: u64
  assume "\<not> n < 128"
  then have n: "128 \<le> n" by simp
  then have "128 \<le> unat n" by (simp add: word_le_nat_alt)
  then show "(drop_bit 7 (n - 128), n) \<in> measure unat"
    by (simp add: unat_tail [OF n])
qed simp

declare put_varint_tail.simps [simp del]

definition put_varint :: "u64 \<Rightarrow> bytes" where
  "put_varint n =
     (if n < 240 then [as_u8 n]
      else (as_u8 n OR 0xF0) # put_varint_tail (drop_bit 4 (n - 240)))"

text \<open>\<open>u64::from(byte) << shift\<close>.\<close>

definition shl :: "u64 \<Rightarrow> nat \<Rightarrow> u64" where
  "shl x s = push_bit (s mod 64) x"

function get_varint_loop :: "bytes \<Rightarrow> nat \<Rightarrow> u64 \<Rightarrow> nat \<Rightarrow> (u64 \<times> nat) option" where
  "get_varint_loop buf pos value shift =
     (if pos < length buf then
        (let byte = buf ! pos; value' = value + shl (ucast byte) shift
         in if byte < 128 then Some (value', pos + 1)
            else get_varint_loop buf (pos + 1) value' (shift + 7))
      else None)"
  by pat_completeness auto
termination
  by (relation "measure (\<lambda>(buf, pos, _, _). length buf - pos)") auto

declare get_varint_loop.simps [simp del]

definition get_varint :: "bytes \<Rightarrow> nat \<Rightarrow> (u64 \<times> nat) option" where
  "get_varint buf pos =
     (if pos < length buf then
        (let first = ucast (buf ! pos) :: u64
         in if first < 240 then Some (first, pos + 1)
            else get_varint_loop buf (pos + 1) first 4)
      else None)"

subsection \<open>The round trip\<close>

lemma bit_0x80: "bit (0x80 :: int) n \<longleftrightarrow> n = 7"
proof -
  have "(0x80 :: int) = push_bit 7 1" by (simp add: push_bit_eq_mult)
  then show ?thesis by (simp only: bit_push_bit_iff) (auto simp: bit_1_iff)
qed

lemma bit_0xF0: "bit (0xF0 :: int) n \<longleftrightarrow> 4 \<le> n \<and> n < 8"
proof -
  have "(0xF0 :: int) = push_bit 4 (mask 4)" by (simp add: push_bit_eq_mult mask_eq_exp_minus_1)
  then show ?thesis by (simp only: bit_push_bit_iff bit_mask_iff) auto
qed

lemma tail_byte: "(ucast (as_u8 n OR 0x80) :: u64) = 128 + take_bit 7 n"
proof -
  have "(ucast (as_u8 n OR 0x80) :: u64) = 0x80 OR take_bit 7 n"
    by (rule bit_word_eqI) (auto simp: as_u8_def bit_simps bit_0x80 less_Suc_eq)
  also have "\<dots> = 0x80 + take_bit 7 n"
    by (rule disjunctive_add_eq_or [symmetric]) (auto intro!: bit_word_eqI simp: bit_simps bit_0x80)
  finally show ?thesis by simp
qed

lemma head_byte_or: "(ucast (as_u8 n OR 0xF0) :: u64) = 0xF0 OR take_bit 4 n"
  by (rule bit_word_eqI) (auto simp: as_u8_def bit_simps bit_0xF0 less_Suc_eq)

lemma head_byte: "(ucast (as_u8 n OR 0xF0) :: u64) = 240 + take_bit 4 n"
proof -
  have "0xF0 OR take_bit 4 n = 0xF0 + take_bit 4 n"
    by (rule disjunctive_add_eq_or [symmetric]) (auto intro!: bit_word_eqI simp: bit_simps bit_0xF0)
  with head_byte_or show ?thesis by simp
qed

lemma unat_low_bits: "unat (take_bit j w) = unat w mod 2 ^ j" for w :: "'a::len word"
  by (metis unsigned_take_bit_eq take_bit_eq_mod)

lemma take_bit_sub:
  assumes "c \<le> (m :: u64)" "unat c = k * 2 ^ j"
  shows "take_bit j (m - c) = take_bit j m"
proof -
  from assms(1) have le: "unat c \<le> unat m" by (simp add: word_le_nat_alt)
  have "unat (take_bit j (m - c)) = (unat m - unat c) mod 2 ^ j"
    by (simp add: unat_low_bits unat_sub [OF assms(1)])
  also have "\<dots> = (unat m - unat c + k * 2 ^ j) mod 2 ^ j" by simp
  also have "unat m - unat c + k * 2 ^ j = unat m" using le assms(2) by simp
  also have "unat m mod 2 ^ j = unat (take_bit j m)" by (simp add: unat_low_bits)
  finally show ?thesis by (simp only: word_unat_eq_iff)
qed

lemma tail_split:
  assumes "128 \<le> (m :: u64)"
  shows "m = 128 + take_bit 7 m + push_bit 7 (drop_bit 7 (m - 128))"
proof -
  have "unat (128 :: u64) = 1 * 2 ^ 7" by simp
  from take_bit_sub [OF assms this] bits_ident [of 7 "m - 128"] show ?thesis
    by (simp only: algebra_simps)
qed

lemma head_split:
  assumes "240 \<le> (n :: u64)"
  shows "n = 240 + take_bit 4 n + push_bit 4 (drop_bit 4 (n - 240))"
proof -
  have "unat (240 :: u64) = 15 * 2 ^ 4" by simp
  from take_bit_sub [OF assms this] bits_ident [of 4 "n - 240"] show ?thesis
    by (simp only: algebra_simps)
qed

text \<open>The last byte of an encoding is below 128, every other one is not.\<close>

lemma unat_as_u8: "unat (as_u8 n) = unat n mod 256"
  by (simp add: as_u8_def unsigned_ucast_eq take_bit_eq_mod [where ?'a = nat])

lemma last_byte: "n < 128 \<Longrightarrow> as_u8 n < 128" "n < 240 \<Longrightarrow> (ucast (as_u8 n) :: u64) = n"
proof -
  show "n < 128 \<Longrightarrow> as_u8 n < 128" by (simp add: word_less_nat_alt unat_as_u8)
  show "n < 240 \<Longrightarrow> (ucast (as_u8 n) :: u64) = n"
    by (simp add: word_unat_eq_iff word_less_nat_alt unsigned_ucast_eq unat_as_u8
        take_bit_eq_mod [where ?'a = nat])
qed

lemma continued_byte: "\<not> as_u8 n OR 0x80 < 128"
  by (metis le_word_or2 or.commute leD)

lemma get_varint_loop_tail:
  "unat m * 2 ^ s < 2 ^ 64 \<Longrightarrow> s < 64 \<Longrightarrow>
    get_varint_loop (pre @ put_varint_tail m @ rest) (length pre) v s =
      Some (v + push_bit s m, length pre + length (put_varint_tail m))"
proof (induction m arbitrary: pre v s rule: put_varint_tail.induct)
  case (1 m)
  show ?case
  proof (cases "m < 128")
    case True
    then show ?thesis
      by (subst get_varint_loop.simps, subst (1 2 3 4) put_varint_tail.simps)
         (use "1.prems" last_byte in \<open>simp add: Let_def shl_def word_less_nat_alt\<close>)
  next
    case False
    let ?q = "drop_bit 7 (m - 128)"
    let ?b = "as_u8 m OR 0x80"
    from False have m: "128 \<le> m" by simp
    then have um: "128 \<le> unat m" by (simp add: word_le_nat_alt)
    have uq: "unat ?q = (unat m - 128) div 128" by (rule unat_tail [OF m])
    have "unat ?q * 2 ^ (s + 7) \<le> unat m * 2 ^ s" unfolding uq
      by (simp add: power_add mult.assoc [symmetric])
    with "1.prems"(1) have small: "unat ?q * 2 ^ (s + 7) < 2 ^ 64" by simp
    have "2 ^ 7 * 2 ^ s \<le> unat m * 2 ^ s" using um by simp
    then have "(2 :: nat) ^ (7 + s) \<le> unat m * 2 ^ s" by (simp only: power_add)
    from le_less_trans [OF this "1.prems"(1)] have "(2 :: nat) ^ (7 + s) < 2 ^ 64" .
    then have "7 + s < 64" by (rule power_less_imp_less_exp [rotated]) simp
    then have s: "s + 7 < 64" by simp
    have enc: "put_varint_tail m = ?b # put_varint_tail ?q"
      using False by (subst put_varint_tail.simps) simp
    have "get_varint_loop (pre @ put_varint_tail m @ rest) (length pre) v s =
        get_varint_loop ((pre @ [?b]) @ put_varint_tail ?q @ rest) (length (pre @ [?b]))
          (v + push_bit s (ucast ?b)) (s + 7)"
      using continued_byte [of m] "1.prems"(2)
      by (subst get_varint_loop.simps) (simp add: enc Let_def shl_def)
    also have "\<dots> = Some (v + push_bit s (ucast ?b) + push_bit (s + 7) ?q,
        length (pre @ [?b]) + length (put_varint_tail ?q))"
      using "1.IH" [OF False small s] .
    also have "v + push_bit s (ucast ?b) + push_bit (s + 7) ?q = v + push_bit s m"
      by (subst (3) tail_split [OF m])
         (simp add: tail_byte push_bit_add add.assoc flip: push_bit_push_bit)
    finally show ?thesis by (simp add: enc)
  qed
qed

lemma get_put_varint:
  "get_varint (pre @ put_varint n @ rest) (length pre) = Some (n, length pre + length (put_varint n))"
proof (cases "n < 240")
  case True
  then show ?thesis using last_byte(2) [OF True] by (simp add: get_varint_def put_varint_def)
next
  case False
  let ?q = "drop_bit 4 (n - 240)"
  let ?b = "as_u8 n OR 0xF0"
  from False have n: "240 \<le> n" by simp
  have "unat ?q = (unat n - 240) div 16"
    using n by (simp add: drop_bit_eq_div unat_div_distrib unat_sub)
  then have "unat ?q * 2 ^ 4 \<le> unat n" by simp
  moreover have "unat n < 2 ^ 64" by (rule order_less_le_trans [OF unsigned_less]) simp
  ultimately have small: "unat ?q * 2 ^ 4 < 2 ^ 64" by (rule le_less_trans)
  have first: "\<not> (ucast ?b :: u64) < 240"
    using le_word_or2 [of "240 :: u64"] by (simp add: head_byte_or not_less)
  have "get_varint (pre @ put_varint n @ rest) (length pre) =
      get_varint_loop ((pre @ [?b]) @ put_varint_tail ?q @ rest) (length (pre @ [?b])) (ucast ?b) 4"
    using False first by (simp add: get_varint_def put_varint_def)
  also have "\<dots> = Some (ucast ?b + push_bit 4 ?q, length (pre @ [?b]) + length (put_varint_tail ?q))"
    by (rule get_varint_loop_tail [OF small]) simp
  also have "ucast ?b + push_bit 4 ?q = n"
    using head_split [OF n] by (simp add: head_byte)
  finally show ?thesis using False by (simp add: put_varint_def)
qed

text \<open>The integers are a prefix codec over the bytes that follow.\<close>

definition varint_dec :: "bytes \<Rightarrow> (u64 \<times> bytes) option" where
  "varint_dec bs = map_option (\<lambda>(n, pos). (n, drop pos bs)) (get_varint bs 0)"

interpretation varint: prefix_codec "\<lambda>_. True" put_varint varint_dec
  using get_put_varint [of "[]"] by unfold_locales (simp add: varint_dec_def)

subsection \<open>Frames\<close>

text \<open>
  The typed values a client sends. Their encoding belongs to the protocol library and is a
  parameter.
\<close>

datatype client_data = CD_String string | CD_UInt32 u32 | CD_IPv4 ipv4 | CD_IPv6 ipv6

definition FRAME_HAPROXY_HELLO :: u8 where "FRAME_HAPROXY_HELLO = 0x01"
definition FRAME_NOTIFY :: u8 where "FRAME_NOTIFY = 0x03"
definition FRAME_AGENT_HELLO :: u8 where "FRAME_AGENT_HELLO = 0x65"
definition FRAME_AGENT_ACK :: u8 where "FRAME_AGENT_ACK = 0x67"
definition FLAG_FIN :: u32 where "FLAG_FIN = 1"
definition MAX_FRAME_SIZE :: nat where "MAX_FRAME_SIZE = 16384"
definition MIN_FRAME_SIZE :: nat where "MIN_FRAME_SIZE = 7"
definition ACTION_SET_VAR :: u8 where "ACTION_SET_VAR = 0x01"
definition SCOPE_SESSION :: u8 where "SCOPE_SESSION = 0x01"
definition BOOLEAN_FALSE :: u8 where "BOOLEAN_FALSE = 0x01"
definition BOOLEAN_TRUE :: u8 where "BOOLEAN_TRUE = 0x11"
definition MESSAGE :: string where "MESSAGE = ''check-client-ip''"
definition ARGUMENT :: string where "ARGUMENT = ''ip''"
definition VARIABLE :: string where "VARIABLE = ''ip_bad''"

lemmas frame_consts = FRAME_HAPROXY_HELLO_def FRAME_NOTIFY_def FRAME_AGENT_HELLO_def
  FRAME_AGENT_ACK_def FLAG_FIN_def MAX_FRAME_SIZE_def MIN_FRAME_SIZE_def ACTION_SET_VAR_def
  SCOPE_SESSION_def BOOLEAN_FALSE_def BOOLEAN_TRUE_def

definition to_be_bytes :: "u32 \<Rightarrow> bytes" where
  "to_be_bytes n = [ucast (drop_bit 24 n), ucast (drop_bit 16 n), ucast (drop_bit 8 n), ucast n]"

definition from_be_bytes :: "u8 \<Rightarrow> u8 \<Rightarrow> u8 \<Rightarrow> u8 \<Rightarrow> u32" where
  "from_be_bytes a b c d =
     push_bit 24 (ucast a) OR push_bit 16 (ucast b) OR push_bit 8 (ucast c) OR ucast d"

lemma from_to_be_bytes:
  "from_be_bytes (ucast (drop_bit 24 n)) (ucast (drop_bit 16 n)) (ucast (drop_bit 8 n)) (ucast n) = n"
proof (rule bit_word_eqI)
  fix i :: nat
  assume "i < LENGTH(32)"
  then consider "i < 8" | "8 \<le> i" "i < 16" | "16 \<le> i" "i < 24" | "24 \<le> i" "i < 32"
    by fastforce
  then show "bit (from_be_bytes (ucast (drop_bit 24 n)) (ucast (drop_bit 16 n)) (ucast (drop_bit 8 n)) (ucast n)) i =
      bit n i"
    by cases (auto simp: from_be_bytes_def bit_simps)
qed

definition put_string :: "string \<Rightarrow> bytes" where
  "put_string txt = put_varint (of_nat (length txt)) @ map (of_nat \<circ> of_char) txt"

definition put_frame :: "bytes \<Rightarrow> u8 \<Rightarrow> u64 \<Rightarrow> u64 \<Rightarrow> bytes \<Rightarrow> bytes" where
  "put_frame out kind stream_id frame_id payload =
     (let body = [kind] @ to_be_bytes FLAG_FIN @ put_varint stream_id @ put_varint frame_id @ payload
      in out @ to_be_bytes (of_nat (length body)) @ body)"

definition hello_payload :: "(client_data \<Rightarrow> bytes) \<Rightarrow> bytes" where
  "hello_payload E =
     put_string ''supported-versions'' @ E (CD_String ''2.0'') @
     put_string ''max-frame-size'' @ E (CD_UInt32 (of_nat MAX_FRAME_SIZE)) @
     put_string ''capabilities'' @ E (CD_String [])"

definition message_prefix :: bytes where
  "message_prefix = put_string MESSAGE @ [1] @ put_string ARGUMENT"

definition expected_action :: bytes where
  "expected_action = [ACTION_SET_VAR, 3, SCOPE_SESSION] @ put_string VARIABLE"

subsection \<open>The connection\<close>

datatype client_error =
    Connect_Error string
  | Read_Error
  | Write_Error string
  | Invalid_Frame_Size nat
  | Expected_Hello bytes
  | Truncated_Frame bytes
  | Expected_Ack u8
  | Unexpected_Flags u32
  | Truncated_Header bytes
  | Wrong_Stream u64 u64
  | No_Action
  | Unexpected_Actions bytes
  | Not_A_Boolean u8
  | Ack_For_Other_Frame u64 u64
  | Unexpected_Ack u64

text \<open>
  The peer's side of a connection: the bytes still to be read before the stream ends, the bytes
  written, and the error every further write meets, if any.
\<close>

record connection =
  stream_id :: u64
  next_frame_id :: u64
  to_read :: bytes
  written :: bytes
  write_error :: "string option"

definition write_all :: "bytes \<Rightarrow> connection \<Rightarrow> (client_error + unit) \<times> connection" where
  "write_all bs c =
     (case write_error c of
        Some e \<Rightarrow> (Err (Write_Error e), c)
      | None \<Rightarrow> (Ok (), c\<lparr>written := written c @ bs\<rparr>))"

text \<open>The body of one frame. A read that meets the end of the stream has consumed the rest.\<close>

definition read_frame :: "connection \<Rightarrow> (client_error + bytes) \<times> connection" where
  "read_frame c =
     (case to_read c of
        a # b # d # e # rest \<Rightarrow>
          (let len = unat (from_be_bytes a b d e)
           in if \<not> (MIN_FRAME_SIZE \<le> len \<and> len \<le> MAX_FRAME_SIZE)
              then (Err (Invalid_Frame_Size len), c\<lparr>to_read := rest\<rparr>)
              else if length rest < len then (Err Read_Error, c\<lparr>to_read := []\<rparr>)
              else (Ok (take len rest), c\<lparr>to_read := drop len rest\<rparr>))
      | _ \<Rightarrow> (Err Read_Error, c\<lparr>to_read := []\<rparr>))"

definition handshake :: "(client_data \<Rightarrow> bytes) \<Rightarrow> connection \<Rightarrow> (client_error + unit) \<times> connection" where
  "handshake E c =
     (case write_all (put_frame [] FRAME_HAPROXY_HELLO 0 0 (hello_payload E)) c of
        (Inl e, c1) \<Rightarrow> (Err e, c1)
      | (Inr _, c1) \<Rightarrow>
          (case read_frame c1 of
             (Inl e, c2) \<Rightarrow> (Err e, c2)
           | (Inr body, c2) \<Rightarrow>
               (if take 7 body \<noteq> [FRAME_AGENT_HELLO, 0, 0, 0, 1, 0, 0] then (Err (Expected_Hello body), c2)
                else (Ok (), c2))))"

text \<open>
  What the operating system answers while connecting: the connection's bytes to read and the error
  of its writes, and the three socket options (no delay, read and write timeout).
\<close>

record tcp_answers =
  tcp_connect :: "string + bytes \<times> string option"
  tcp_nodelay :: "string + unit"
  tcp_read_timeout :: "string + unit"
  tcp_write_timeout :: "string + unit"

definition connect ::
  "(client_data \<Rightarrow> bytes) \<Rightarrow> tcp_answers \<Rightarrow> u64 \<Rightarrow> client_error + connection" where
  "connect E T sid =
     (case tcp_connect T of
        Inl e \<Rightarrow> Err (Connect_Error e)
      | Inr (incoming, wr) \<Rightarrow>
     (case tcp_nodelay T of
        Inl e \<Rightarrow> Err (Connect_Error e)
      | Inr _ \<Rightarrow>
     (case tcp_read_timeout T of
        Inl e \<Rightarrow> Err (Connect_Error e)
      | Inr _ \<Rightarrow>
     (case tcp_write_timeout T of
        Inl e \<Rightarrow> Err (Connect_Error e)
      | Inr _ \<Rightarrow>
          (case handshake E \<lparr>stream_id = sid, next_frame_id = 1, to_read = incoming, written = [], write_error = wr\<rparr> of
             (Inl e, _) \<Rightarrow> Err e
           | (Inr _, c) \<Rightarrow> Ok c)))))"

definition decode_ack :: "bytes \<Rightarrow> u64 \<Rightarrow> bytes \<Rightarrow> client_error + u64 \<times> bool" where
  "decode_ack body sid action =
     (if length body < MIN_FRAME_SIZE then Err (Truncated_Frame body)
      else if body ! 0 \<noteq> FRAME_AGENT_ACK then Err (Expected_Ack (body ! 0))
      else let flags = from_be_bytes (body ! 1) (body ! 2) (body ! 3) (body ! 4)
      in if flags \<noteq> FLAG_FIN then Err (Unexpected_Flags flags)
      else case get_varint body 5 of
        None \<Rightarrow> Err (Truncated_Header body)
      | Some (acked_stream, pos1) \<Rightarrow>
      (case get_varint body pos1 of
        None \<Rightarrow> Err (Truncated_Header body)
      | Some (frame_id, pos) \<Rightarrow>
      (if acked_stream \<noteq> sid then Err (Wrong_Stream acked_stream sid)
       else let actions = drop pos body
       in if actions = [] then Err No_Action
       else if butlast actions \<noteq> action then Err (Unexpected_Actions actions)
       else if last actions = BOOLEAN_FALSE then Ok (frame_id, False)
       else if last actions = BOOLEAN_TRUE then Ok (frame_id, True)
       else Err (Not_A_Boolean (last actions)))))"

definition notify_frame :: "(client_data \<Rightarrow> bytes) \<Rightarrow> u64 \<Rightarrow> u64 \<Rightarrow> ip_addr \<Rightarrow> bytes \<Rightarrow> bytes" where
  "notify_frame E sid frame_id ip out =
     put_frame out FRAME_NOTIFY sid frame_id
       (message_prefix @ (case ip of V4 a \<Rightarrow> E (CD_IPv4 a) | V6 a \<Rightarrow> E (CD_IPv6 a)))"

record reply =
  reply_blocked :: bool
  reply_tx :: nat
  reply_rx :: nat

definition check_ip ::
  "(client_data \<Rightarrow> bytes) \<Rightarrow> ip_addr \<Rightarrow> connection \<Rightarrow> (client_error + reply) \<times> connection" where
  "check_ip E ip c =
     (let frame_id = next_frame_id c;
          c1 = c\<lparr>next_frame_id := frame_id + 1\<rparr>;
          out = notify_frame E (stream_id c) frame_id ip []
      in case write_all out c1 of
          (Inl e, c2) \<Rightarrow> (Err e, c2)
        | (Inr _, c2) \<Rightarrow>
            (case read_frame c2 of
               (Inl e, c3) \<Rightarrow> (Err e, c3)
             | (Inr body, c3) \<Rightarrow>
                 (case decode_ack body (stream_id c) expected_action of
                    Inl e \<Rightarrow> (Err e, c3)
                  | Inr (acked_frame, blocked) \<Rightarrow>
                      (if acked_frame \<noteq> frame_id then (Err (Ack_For_Other_Frame acked_frame frame_id), c3)
                       else (Ok \<lparr>reply_blocked = blocked, reply_tx = length out,
                                 reply_rx = 4 + length body\<rparr>, c3)))))"

subsection \<open>Pipelining\<close>

record batch_reply =
  batch_blocked :: nat
  batch_tx :: nat
  batch_rx :: nat

text \<open>The index of an acknowledged frame within the batch, if it is still pending.\<close>

definition pending_index :: "u64 \<Rightarrow> u64 \<Rightarrow> nat \<Rightarrow> u64 \<Rightarrow> u64 option" where
  "pending_index frame_id first_frame n pending =
     (if frame_id < first_frame then None
      else let index = frame_id - first_frame
      in if index < of_nat n \<and> pending AND shl 1 (unat index) \<noteq> 0 then Some index else None)"

definition batch_mask :: "nat \<Rightarrow> u64" where
  "batch_mask n = (if n = 64 then - 1 else shl 1 n - 1)"

fun ack_loop ::
  "u64 \<Rightarrow> nat \<Rightarrow> nat \<Rightarrow> u64 \<Rightarrow> batch_reply \<Rightarrow> connection \<Rightarrow> (client_error + batch_reply) \<times> connection" where
  "ack_loop first_frame n 0 pending reply c = (Ok reply, c)"
| "ack_loop first_frame n (Suc k) pending reply c =
     (case read_frame c of
        (Inl e, c') \<Rightarrow> (Err e, c')
      | (Inr body, c') \<Rightarrow>
          (case decode_ack body (stream_id c) expected_action of
             Inl e \<Rightarrow> (Err e, c')
           | Inr (frame_id, blocked) \<Rightarrow>
               (case pending_index frame_id first_frame n pending of
                  None \<Rightarrow> (Err (Unexpected_Ack frame_id), c')
                | Some index \<Rightarrow>
                    ack_loop first_frame n k (pending AND NOT (shl 1 (unat index)))
                      (reply\<lparr>batch_blocked := batch_blocked reply + (if blocked then 1 else 0),
                             batch_rx := batch_rx reply + (4 + length body)\<rparr>) c')))"

fun notify_all :: "(client_data \<Rightarrow> bytes) \<Rightarrow> u64 \<Rightarrow> u64 \<Rightarrow> ip_addr list \<Rightarrow> bytes \<Rightarrow> bytes \<times> u64" where
  "notify_all E sid frame_id [] out = (out, frame_id)"
| "notify_all E sid frame_id (ip # ips) out =
     notify_all E sid (frame_id + 1) ips (notify_frame E sid frame_id ip out)"

text \<open>\<open>None\<close> is the failed assertion on the depth.\<close>

definition check_pipelined ::
  "(client_data \<Rightarrow> bytes) \<Rightarrow> ip_addr list \<Rightarrow> connection
    \<Rightarrow> ((client_error + batch_reply) \<times> connection) option" where
  "check_pipelined E ips c =
     (if ips = [] \<or> 64 < length ips then None
      else let first_frame = next_frame_id c
      in case notify_all E (stream_id c) first_frame ips [] of
          (out, next) \<Rightarrow>
            Some (case write_all out (c\<lparr>next_frame_id := next\<rparr>) of
                (Inl e, c1) \<Rightarrow> (Err e, c1)
              | (Inr _, c1) \<Rightarrow>
                  ack_loop first_frame (length ips) (length ips) (batch_mask (length ips))
                    \<lparr>batch_blocked = 0, batch_tx = length out, batch_rx = 0\<rparr> c1))"

subsection \<open>Acknowledgements\<close>

text \<open>The acknowledgement an agent answers a request with.\<close>

definition ack_body :: "u64 \<Rightarrow> u64 \<Rightarrow> bool \<Rightarrow> bytes" where
  "ack_body sid frame_id blocked =
     [FRAME_AGENT_ACK] @ to_be_bytes FLAG_FIN @ put_varint sid @ put_varint frame_id @ expected_action @
     [if blocked then BOOLEAN_TRUE else BOOLEAN_FALSE]"

lemma put_varint_nonempty: "put_varint n \<noteq> []"
  by (simp add: put_varint_def)

lemma decode_ack_body: "decode_ack (ack_body sid frame_id blocked) sid expected_action = Ok (frame_id, blocked)"
proof -
  let ?h = "[FRAME_AGENT_ACK] @ to_be_bytes FLAG_FIN"
  let ?tail = "expected_action @ [if blocked then BOOLEAN_TRUE else BOOLEAN_FALSE]"
  let ?body = "ack_body sid frame_id blocked"
  have h: "length ?h = 5" by (simp add: to_be_bytes_def)
  have body: "?body = ?h @ put_varint sid @ put_varint frame_id @ ?tail" by (simp add: ack_body_def)
  have v1: "get_varint ?body 5 = Some (sid, 5 + length (put_varint sid))"
    unfolding body using get_put_varint [of ?h sid "put_varint frame_id @ ?tail"] h by simp
  have v2: "get_varint ?body (5 + length (put_varint sid)) =
      Some (frame_id, 5 + length (put_varint sid) + length (put_varint frame_id))"
    unfolding body using get_put_varint [of "?h @ put_varint sid" frame_id ?tail] h by simp
  have rest: "drop (5 + length (put_varint sid) + length (put_varint frame_id)) ?body = ?tail"
  proof -
    have "?body = (?h @ put_varint sid @ put_varint frame_id) @ ?tail" by (simp add: body)
    moreover have "length (?h @ put_varint sid @ put_varint frame_id) =
        5 + length (put_varint sid) + length (put_varint frame_id)"
      using h by simp
    ultimately show ?thesis by (metis append_eq_conv_conj)
  qed
  have len: "\<not> length ?body < MIN_FRAME_SIZE"
    by (simp add: ack_body_def to_be_bytes_def expected_action_def MIN_FRAME_SIZE_def)
  have flags: "from_be_bytes (?body ! 1) (?body ! 2) (?body ! 3) (?body ! 4) = FLAG_FIN"
    using from_to_be_bytes [of FLAG_FIN] by (simp add: ack_body_def to_be_bytes_def numeral_eq_Suc)
  have "?body ! 0 = FRAME_AGENT_ACK" by (simp add: ack_body_def)
  then show ?thesis
    using len flags v1 v2 rest by (simp add: decode_ack_def Let_def BOOLEAN_TRUE_def BOOLEAN_FALSE_def del: drop_eq_Nil)
qed

text \<open>What an accepted acknowledgement looks like.\<close>

lemma snoc_eqI: "xs \<noteq> [] \<Longrightarrow> butlast xs = ys \<Longrightarrow> last xs = y \<Longrightarrow> xs = ys @ [y]"
  by (metis append_butlast_last_id)

lemma decode_ack_Ok:
  assumes "decode_ack body sid action = Ok (frame_id, blocked)"
  shows "body ! 0 = FRAME_AGENT_ACK \<and>
    (\<exists>pos1 pos. get_varint body 5 = Some (sid, pos1) \<and> get_varint body pos1 = Some (frame_id, pos) \<and>
      drop pos body = action @ [if blocked then BOOLEAN_TRUE else BOOLEAN_FALSE])"
proof -
  from assms have "body ! 0 = FRAME_AGENT_ACK" by (simp add: decode_ack_def split: if_splits)
  moreover from assms obtain pos1 pos where v: "get_varint body 5 = Some (sid, pos1)"
    "get_varint body pos1 = Some (frame_id, pos)"
    by (simp add: decode_ack_def Let_def split: if_splits option.splits prod.splits)
  moreover from assms v have "drop pos body = action @ [if blocked then BOOLEAN_TRUE else BOOLEAN_FALSE]"
    by (intro snoc_eqI)
       (simp_all add: decode_ack_def Let_def BOOLEAN_TRUE_def BOOLEAN_FALSE_def del: drop_eq_Nil split: if_splits)
  ultimately show ?thesis by blast
qed

subsection \<open>The mask of pending requests\<close>

lemma bit_batch_mask: "n \<le> 64 \<Longrightarrow> bit (batch_mask n) i \<longleftrightarrow> i < n"
proof (cases "n = 64")
  case True
  then show ?thesis by (auto simp: batch_mask_def bit_simps)
next
  case False
  assume "n \<le> 64"
  with False have "batch_mask n = mask n"
    by (simp add: batch_mask_def shl_def mask_eq_exp_minus_1 push_bit_eq_mult)
  with False \<open>n \<le> 64\<close> show ?thesis by (auto simp: bit_mask_iff)
qed

lemma and_shl_one: "i < 64 \<Longrightarrow> (pending AND shl 1 i \<noteq> 0) \<longleftrightarrow> bit pending i"
proof -
  assume i: "i < 64"
  have "pending AND shl 1 i = (if bit pending i then shl 1 i else 0)"
    by (rule bit_word_eqI) (use i in \<open>auto simp: shl_def bit_simps bit_1_iff\<close>)
  moreover have "shl 1 i \<noteq> 0"
    using i by (simp add: shl_def push_bit_eq_mult)
  ultimately show ?thesis by simp
qed

lemma bit_cleared: "i < 64 \<Longrightarrow> bit (pending AND NOT (shl 1 i)) j \<longleftrightarrow> bit pending j \<and> j \<noteq> i"
  by (auto simp: shl_def bit_simps bit_1_iff dest: bit_imp_le_length)

lemma pending_index_Some:
  assumes "pending_index frame_id first_frame n pending = Some index" "n \<le> 64"
  shows "frame_id = first_frame + index" "unat index < n" "bit pending (unat index)"
proof -
  from assms(1) have i: "index = frame_id - first_frame" "index < of_nat n"
    "pending AND shl 1 (unat index) \<noteq> 0"
    by (auto simp: pending_index_def Let_def split: if_splits)
  from i(2) assms(2) show n: "unat index < n"
    by (simp add: word_less_nat_alt unat_of_nat)
  from i(1) show "frame_id = first_frame + index" by simp
  from i(3) n assms(2) show "bit pending (unat index)" by (simp add: and_shl_one)
qed

text \<open>The frame identifiers the next acknowledgements carry.\<close>

fun acked :: "nat \<Rightarrow> connection \<Rightarrow> u64 list" where
  "acked 0 c = []"
| "acked (Suc k) c =
     (case read_frame c of
        (Inl e, c') \<Rightarrow> []
      | (Inr body, c') \<Rightarrow>
          (case decode_ack body (stream_id c) expected_action of
             Inl e \<Rightarrow> []
           | Inr (frame_id, blocked) \<Rightarrow> frame_id # acked k c'))"

lemma ack_loop_indices:
  "ack_loop first_frame n k pending reply c = (Ok reply', c') \<Longrightarrow> n \<le> 64 \<Longrightarrow>
    length (acked k c) = k \<and>
    distinct (map (\<lambda>f. unat (f - first_frame)) (acked k c)) \<and>
    (\<forall>f\<in>set (acked k c). unat (f - first_frame) < n \<and> bit pending (unat (f - first_frame)))"
proof (induction k arbitrary: pending reply c)
  case (Suc k)
  from Suc.prems(1) obtain body c1 frame_id blocked index where r:
    "read_frame c = (Inr body, c1)" "decode_ack body (stream_id c) expected_action = Inr (frame_id, blocked)"
    "pending_index frame_id first_frame n pending = Some index"
    "ack_loop first_frame n k (pending AND NOT (shl 1 (unat index)))
       (reply\<lparr>batch_blocked := batch_blocked reply + (if blocked then 1 else 0),
              batch_rx := batch_rx reply + (4 + length body)\<rparr>) c1 = (Ok reply', c')"
    by (auto split: sum.splits prod.splits option.splits)
  note i = pending_index_Some [OF r(3) Suc.prems(2)]
  from i(2) Suc.prems(2) have "unat index < 64" by simp
  with Suc.IH [OF r(4) Suc.prems(2)] i r(1,2) show ?case
    by (auto simp: bit_cleared)
qed simp

lemma acked_cong:
  "to_read c = to_read c' \<Longrightarrow> stream_id c = stream_id c' \<Longrightarrow> acked k c = acked k c'"
proof (induction k arbitrary: c c')
  case (Suc k)
  have copy: "read_frame c' = (fst (read_frame c), c'\<lparr>to_read := to_read (snd (read_frame c))\<rparr>)"
    using Suc.prems(1) by (simp add: read_frame_def Let_def split: list.splits)
  obtain r d where r: "read_frame c = (r, d)" by fastforce
  have "stream_id d = stream_id c"
    using r by (auto simp: read_frame_def Let_def split: list.splits if_splits)
  then have "acked k d = acked k (c'\<lparr>to_read := to_read d\<rparr>)"
    using Suc.prems(2) by (intro Suc.IH) simp_all
  with r copy Suc.prems(2) show ?case by (simp split: sum.split)
qed simp

text \<open>The length of an encoded integer.\<close>

lemma length_put_varint_tail: "0 < k \<Longrightarrow> unat m < 2 ^ (7 * k) \<Longrightarrow> length (put_varint_tail m) \<le> k"
proof (induction m arbitrary: k rule: put_varint_tail.induct)
  case (1 m)
  show ?case
  proof (cases "m < 128")
    case True
    with "1.prems"(1) show ?thesis by (subst put_varint_tail.simps) simp
  next
    case False
    then have m: "128 \<le> m" by simp
    then have "128 \<le> unat m" by (simp add: word_le_nat_alt)
    with "1.prems" have "k \<noteq> 1" by auto
    with "1.prems"(1) obtain j where j: "k = Suc j" "0 < j" by (cases k) auto
    have "unat (drop_bit 7 (m - 128)) < 2 ^ (7 * j)"
      using "1.prems"(2) unfolding unat_tail [OF m(1)] j(1)
      by (simp add: power_add less_mult_imp_div_less)
    from "1.IH" [OF False j(2) this] False j(1) show ?thesis
      by (subst put_varint_tail.simps) simp
  qed
qed

lemma length_put_varint: "length (put_varint n) \<le> 10"
proof (cases "n < 240")
  case False
  then have "240 \<le> n" by simp
  then have "unat (drop_bit 4 (n - 240)) = (unat n - 240) div 16"
    by (simp add: drop_bit_eq_div unat_div_distrib unat_sub)
  moreover have "unat n < 2 ^ 64" by (rule order_less_le_trans [OF unsigned_less]) simp
  ultimately have "unat (drop_bit 4 (n - 240)) < 2 ^ (7 * 9)" by simp
  from length_put_varint_tail [OF _ this] False show ?thesis by (simp add: put_varint_def)
qed (simp add: put_varint_def)

text \<open>Reading back a framed acknowledgement.\<close>

definition framed :: "bytes \<Rightarrow> bytes" where
  "framed body = to_be_bytes (of_nat (length body)) @ body"

lemma read_framed:
  assumes "7 \<le> length body" "length body \<le> 16384" "to_read c = framed body @ rest"
  shows "read_frame c = (Ok body, c\<lparr>to_read := rest\<rparr>)"
proof -
  have "unat (of_nat (length body) :: u32) = length body"
    using assms(2) by (simp add: unat_of_nat)
  with assms show ?thesis
    by (simp add: read_frame_def framed_def to_be_bytes_def from_to_be_bytes Let_def MIN_FRAME_SIZE_def MAX_FRAME_SIZE_def)
qed

lemma length_ack_body: "7 \<le> length (ack_body sid frame_id blocked)" "length (ack_body sid frame_id blocked) \<le> 16384"
proof -
  have "length (put_string VARIABLE) = length (put_varint 6) + 6"
    by (simp add: put_string_def VARIABLE_def)
  then show "7 \<le> length (ack_body sid frame_id blocked)" "length (ack_body sid frame_id blocked) \<le> 16384"
    using length_put_varint [of sid] length_put_varint [of frame_id] length_put_varint [of 6]
    by (simp_all add: ack_body_def to_be_bytes_def expected_action_def)
qed

lemma read_ack:
  "to_read c = framed (ack_body sid frame_id blocked) @ rest \<Longrightarrow>
    read_frame c = (Ok (ack_body sid frame_id blocked), c\<lparr>to_read := rest\<rparr>)"
  by (rule read_framed [OF length_ack_body])

section \<open>Properties\<close>

text \<open>
  C32. The client's variable-length integers round-trip: at any position of any buffer, decoding
  the encoding of a 64-bit integer yields the integer and the position just after it, with no wrap
  on the way, and an encoding has at most ten bytes.
\<close>

theorem varint_roundtrip:
  "get_varint (pre @ put_varint n @ rest) (length pre) = Some (n, length pre + length (put_varint n)) \<and>
   length (put_varint n) \<le> 10"
  using get_put_varint length_put_varint by blast

text \<open>
  C31. One request at a time: when the agent acknowledges the request with the frame's own numbers,
  the client reports exactly the agent's verdict, whatever follows in the stream; and every verdict
  it reports is that of an acknowledgement of this very frame on this stream.
\<close>

theorem check_ip_verdict:
  "(\<forall>blocked rest. write_error c = None \<longrightarrow>
      to_read c = framed (ack_body (stream_id c) (next_frame_id c) blocked) @ rest \<longrightarrow>
      (case check_ip E ip c of
         (Ok r, c') \<Rightarrow> reply_blocked r = blocked \<and> to_read c' = rest
       | (Err e, c') \<Rightarrow> False)) \<and>
   (\<forall>r c'. check_ip E ip c = (Ok r, c') \<longrightarrow>
      (\<exists>body pos1 pos. fst (read_frame c) = Ok body \<and> body ! 0 = FRAME_AGENT_ACK \<and>
         get_varint body 5 = Some (stream_id c, pos1) \<and>
         get_varint body pos1 = Some (next_frame_id c, pos) \<and>
         drop pos body = expected_action @ [if reply_blocked r then BOOLEAN_TRUE else BOOLEAN_FALSE]))"
proof (intro conjI allI impI)
  fix blocked rest
  assume "write_error c = None"
    "to_read c = framed (ack_body (stream_id c) (next_frame_id c) blocked) @ rest"
  then show "case check_ip E ip c of
      (Ok r, c') \<Rightarrow> reply_blocked r = blocked \<and> to_read c' = rest | (Err e, c') \<Rightarrow> False"
    by (simp add: check_ip_def Let_def write_all_def read_ack decode_ack_body)
next
  fix r c'
  assume ok: "check_ip E ip c = (Ok r, c')"
  let ?c2 = "c\<lparr>next_frame_id := next_frame_id c + 1,
    written := written c @ notify_frame E (stream_id c) (next_frame_id c) ip []\<rparr>"
  from ok obtain body blocked where b: "fst (read_frame ?c2) = Ok body"
    "decode_ack body (stream_id c) expected_action = Ok (next_frame_id c, blocked)" "reply_blocked r = blocked"
    by (auto simp: check_ip_def Let_def write_all_def split: option.splits sum.splits prod.splits if_splits)
  have "fst (read_frame ?c2) = fst (read_frame c)"
    by (simp add: read_frame_def Let_def split: list.split)
  with decode_ack_Ok [OF b(2)] b(1,3) show "\<exists>body pos1 pos. fst (read_frame c) = Ok body \<and>
      body ! 0 = FRAME_AGENT_ACK \<and> get_varint body 5 = Some (stream_id c, pos1) \<and>
      get_varint body pos1 = Some (next_frame_id c, pos) \<and>
      drop pos body = expected_action @ [if reply_blocked r then BOOLEAN_TRUE else BOOLEAN_FALSE]"
    by auto
qed

theorem check_ip_verdict_witness:
  "\<exists>r c'. check_ip (\<lambda>_. [6]) (V4 1)
     \<lparr>stream_id = 1, next_frame_id = 7, to_read = framed (ack_body 1 7 True), written = [], write_error = None\<rparr>
     = (Ok r, c') \<and> reply_blocked r"
proof -
  let ?c = "\<lparr>stream_id = 1, next_frame_id = 7, to_read = framed (ack_body 1 7 True), written = [],
    write_error = None\<rparr>"
  from check_ip_verdict [of ?c "\<lambda>_. [6]" "V4 1", THEN conjunct1, rule_format, of True "[]"]
  show ?thesis by (auto split: prod.splits sum.splits)
qed

text \<open>
  C30. Pipelining accounts for every request exactly once: a batch is accepted only when as many
  acknowledgements were read as requests sent, all for this connection's stream, and the frames
  they acknowledge are the batch's frames, each once, in whatever order they arrive.
\<close>

theorem check_pipelined_exactly_once:
  assumes "check_pipelined E ips c = Some (Ok r, c')"
  shows "length (acked (length ips) c) = length ips \<and> distinct (acked (length ips) c) \<and>
    set (acked (length ips) c) = (\<lambda>i. next_frame_id c + of_nat i) ` {..<length ips}"
proof -
  let ?n = "length ips"
  let ?f = "\<lambda>f. unat (f - next_frame_id c)"
  from assms obtain c1 r0 where loop: "ack_loop (next_frame_id c) ?n ?n (batch_mask ?n) r0 c1 = (Ok r, c')"
    and c1: "to_read c1 = to_read c" "stream_id c1 = stream_id c" and n: "?n \<le> 64"
    by (auto simp: check_pipelined_def Let_def write_all_def split: if_splits prod.splits sum.splits option.splits)
  let ?ids = "acked ?n c"
  have ids: "?ids = acked ?n c1" by (rule acked_cong) (simp_all add: c1)
  from ack_loop_indices [OF loop n] have i: "length ?ids = ?n" "distinct (map ?f ?ids)"
    "\<forall>f\<in>set ?ids. ?f f < ?n"
    unfolding ids by auto
  have "?f ` set ?ids = {..<?n}"
  proof (rule card_subset_eq)
    show "card (?f ` set ?ids) = card {..<?n}"
      using distinct_card [OF i(2)] i(1) by simp
  qed (use i(3) in auto)
  moreover have "f = next_frame_id c + of_nat (?f f)" for f by simp
  ultimately have "set ?ids = (\<lambda>i. next_frame_id c + of_nat i) ` {..<?n}"
    by (metis (mono_tags, lifting) image_cong image_ident image_image)
  with i(1,2) show ?thesis by (simp add: distinct_map)
qed

text \<open>Two requests, acknowledged in the opposite order.\<close>

definition sample_connection :: connection where
  "sample_connection =
     \<lparr>stream_id = 1, next_frame_id = 7,
      to_read = framed (ack_body 1 8 True) @ framed (ack_body 1 7 False),
      written = [], write_error = None\<rparr>"

lemma sample_batch:
  "\<exists>r c'. check_pipelined (\<lambda>_. [6]) [V4 1, V4 2] sample_connection = Some (Ok r, c')"
proof -
  have mask: "batch_mask (Suc (Suc 0)) = 3" by (simp add: batch_mask_def shl_def)
  have index: "pending_index 8 7 (Suc (Suc 0)) 3 = Some 1" "pending_index 7 7 (Suc (Suc 0)) 1 = Some 0"
    "(3 :: u64) AND NOT (shl 1 (Suc 0)) = 1"
    by (simp_all add: pending_index_def shl_def)
  have last: "read_frame c = (Ok (ack_body sid frame_id blocked), c\<lparr>to_read := []\<rparr>)"
    if "to_read c = framed (ack_body sid frame_id blocked)" for c sid frame_id blocked
    using read_ack [of c sid frame_id blocked "[]"] that by simp
  show ?thesis
    by (simp add: check_pipelined_def Let_def write_all_def sample_connection_def read_ack last
        decode_ack_body mask index)
qed

theorem check_pipelined_exactly_once_witness:
  "set (acked 2 sample_connection) = {7, 8}"
proof -
  from sample_batch obtain r c' where
    "check_pipelined (\<lambda>_. [6]) [V4 1, V4 2] sample_connection = Some (Ok r, c')"
    by blast
  from check_pipelined_exactly_once [OF this]
  have acked: "set (acked (length [V4 1, V4 2]) sample_connection) =
      (\<lambda>i. next_frame_id sample_connection + of_nat i) ` {..<length [V4 1, V4 2]}"
    by (elim conjE)
  have len: "length [V4 1, V4 2] = 2" by simp
  have first: "next_frame_id sample_connection = 7" by (simp add: sample_connection_def)
  have set2: "{..<2 :: nat} = {0, 1}" by auto
  from acked [unfolded len first set2] show ?thesis by simp
qed

end
