(* ===== verification/Load_Generator.thy ===== *)
theory Load_Generator
  imports Workload Spop_Client Metrics "HOL-Library.Multiset"
begin

text \<open>
  \<open>benches/spoe/main.rs\<close> and the counters of \<open>benches/spoe/fixture.rs\<close>: the load generator around
  the SPOP client. A worker's loop over its connection with its statistics and latency reservoir, the split of a
  batch over the workers, the merged summary, and the wait for the watcher's reloads. Times are nanoseconds;
  a sample's weight is an exact rational for the 64-bit float. \<open>None\<close> is a panic, or a wait that never ends.
\<close>

subsection \<open>Settings\<close>

definition DEFAULT_CONNECTIONS :: "nat list" where "DEFAULT_CONNECTIONS = [4, 32]"
definition RESERVOIR :: nat where "RESERVOIR = 100000"
definition TIMEOUT :: nat where "TIMEOUT = 5 * 10 ^ 9"

text \<open>\<open>str::parse::<usize>\<close>: an optional plus sign and digits, below \<open>2\<^sup>64\<close>.\<close>

definition parse_usize :: "string \<Rightarrow> nat option" where
  "parse_usize s =
     (let ds = (case s of c # cs \<Rightarrow> if c = CHR ''+'' then cs else s | [] \<Rightarrow> s)
      in if ds \<noteq> [] \<and> list_all (\<lambda>c. to_digit 10 c \<noteq> None) ds \<and>
            foldl (\<lambda>n c. 10 * n + (code c - 48)) 0 ds < 2 ^ 64
         then Some (foldl (\<lambda>n c. 10 * n + (code c - 48)) 0 ds) else None)"

definition connections_from_env :: "string option \<Rightarrow> nat list option" where
  "connections_from_env var =
     (case var of
        Some list \<Rightarrow>
          if trim list \<noteq> [] then
            those (map (\<lambda>item.
              case parse_usize (trim item) of
                Some n \<Rightarrow> if 0 < n then Some n else None
              | None \<Rightarrow> None) (split_on CHR '','' list))
          else Some DEFAULT_CONNECTIONS
      | None \<Rightarrow> Some DEFAULT_CONNECTIONS)"

subsection \<open>Counters\<close>

record counters =
  ct_allowed :: u64
  ct_blocked :: u64
  ct_loads :: u64

definition counters_since :: "counters \<Rightarrow> counters \<Rightarrow> counters" where
  "counters_since now before =
     \<lparr>ct_allowed = ct_allowed now - ct_allowed before, ct_blocked = ct_blocked now - ct_blocked before,
      ct_loads = ct_loads now - ct_loads before\<rparr>"

text \<open>The counters after a history of metric updates, whose totals stay below \<open>2\<^sup>53\<close>.\<close>

definition counters_snapshot :: "metric_event list \<Rightarrow> counters" where
  "counters_snapshot evs =
     \<lparr>ct_allowed = of_nat (counter_total IP_ALLOWED_REQUESTS evs),
      ct_blocked = of_nat (counter_total IP_BLOCKED_REQUESTS evs),
      ct_loads = of_nat (counter_total MMDB_FILE_LOADED evs)\<rparr>"

text \<open>
  The loop of \<open>wait_for_reloads\<close>: turn \<open>i\<close> sees the counters and then the clock of \<open>obs i\<close>.
\<close>

partial_function (option) wait_loop ::
  "(nat \<Rightarrow> counters \<times> nat) \<Rightarrow> counters \<Rightarrow> u64 \<Rightarrow> nat \<Rightarrow> nat \<Rightarrow> counters option" where
  "wait_loop obs before touches deadline i =
     (case obs i of
        (now, clock) \<Rightarrow>
          if touches \<le> ct_loads (counters_since now before) \<or> deadline \<le> clock then Some now
          else wait_loop obs before touches deadline (i + 1))"

definition wait_for_reloads ::
  "nat \<Rightarrow> (nat \<Rightarrow> counters \<times> nat) \<Rightarrow> counters \<Rightarrow> u64 \<Rightarrow> counters option" where
  "wait_for_reloads start obs before touches = wait_loop obs before touches (start + TIMEOUT) 0"

subsection \<open>Workers\<close>

record worker_report =
  wr_count :: u64
  wr_blocked :: u64
  wr_errors :: u64
  wr_first_error :: "(client_error \<times> u64) option"
  wr_tx :: u64
  wr_rx :: u64
  wr_total :: nat
  wr_min :: "nat option"
  wr_max :: nat
  wr_samples :: "nat list"

definition default_report :: worker_report where
  "default_report = \<lparr>wr_count = 0, wr_blocked = 0, wr_errors = 0, wr_first_error = None, wr_tx = 0, wr_rx = 0,
     wr_total = 0, wr_min = None, wr_max = 0, wr_samples = []\<rparr>"

record worker =
  wk_connection :: connection
  wk_workload :: workload
  wk_rng :: split_mix
  wk_reservoir_rng :: split_mix
  wk_sequence :: u64
  wk_report :: worker_report

text \<open>The counts and latencies of one answer.\<close>

definition tally :: "nat \<Rightarrow> bool \<Rightarrow> nat \<Rightarrow> nat \<Rightarrow> worker_report \<Rightarrow> worker_report" where
  "tally latency blocked tx rx r =
     r\<lparr>wr_count := wr_count r + 1, wr_blocked := wr_blocked r + (if blocked then 1 else 0),
       wr_tx := wr_tx r + of_nat tx, wr_rx := wr_rx r + of_nat rx, wr_total := wr_total r + latency,
       wr_min := Some (case wr_min r of None \<Rightarrow> latency | Some m \<Rightarrow> min m latency),
       wr_max := max (wr_max r) latency\<rparr>"

definition record_reply :: "nat \<Rightarrow> reply \<Rightarrow> worker \<Rightarrow> worker option" where
  "record_reply latency a w =
     (let r = tally latency (reply_blocked a) (reply_tx a) (reply_rx a) (wk_report w)
      in if length (wr_samples r) < RESERVOIR
         then Some (w\<lparr>wk_report := r\<lparr>wr_samples := wr_samples r @ [latency]\<rparr>\<rparr>)
         else case below (wk_reservoir_rng w) (wr_count r) of
             None \<Rightarrow> None
           | Some (n, rng) \<Rightarrow>
               Some (w\<lparr>wk_reservoir_rng := rng,
                 wk_report := (if unat n < RESERVOIR then r\<lparr>wr_samples := (wr_samples r)[unat n := latency]\<rparr> else r)\<rparr>))"

text \<open>
  \<open>Worker::run\<close>: \<open>E\<close> serialises frames for the client, \<open>latency\<close> is the time the request of a
  number took. The loop stops at the first error.
\<close>

fun worker_run :: "(client_data \<Rightarrow> bytes) \<Rightarrow> (u64 \<Rightarrow> nat) \<Rightarrow> nat \<Rightarrow> worker \<Rightarrow> worker option" where
  "worker_run E latency 0 w = Some w"
| "worker_run E latency (Suc n) w =
     (let sequence = wk_sequence w + 1; w0 = w\<lparr>wk_sequence := sequence\<rparr>
      in case next_ip (wk_workload w0) (wk_rng w0) sequence of
          None \<Rightarrow> None
        | Some (ip, rng) \<Rightarrow>
            (case check_ip E ip (wk_connection w0) of
               (Inr a, c) \<Rightarrow>
                 (case record_reply (latency sequence) a (w0\<lparr>wk_rng := rng, wk_connection := c\<rparr>) of
                    None \<Rightarrow> None
                  | Some w1 \<Rightarrow> worker_run E latency n w1)
             | (Inl e, c) \<Rightarrow>
                 Some (w0\<lparr>wk_rng := rng, wk_connection := c,
                   wk_report := (wk_report w0)\<lparr>wr_errors := wr_errors (wk_report w0) + 1,
                     wr_first_error := (case wr_first_error (wk_report w0) of
                        None \<Rightarrow> Some (e, sequence) | Some f \<Rightarrow> Some f)\<rparr>\<rparr>)))"

text \<open>
  \<open>Workers::start\<close>: one connection per worker, with stream identifiers from 1 and its own seeds; \<open>T\<close>
  answers the calls of each connection. The first failure is returned.
\<close>

definition new_worker :: "connection \<Rightarrow> workload \<Rightarrow> u64 \<Rightarrow> worker" where
  "new_worker c wl sid = \<lparr>wk_connection = c, wk_workload = wl, wk_rng = rng_new (0x1000 + sid),
     wk_reservoir_rng = rng_new (0x2000 + sid), wk_sequence = 0, wk_report = default_report\<rparr>"

fun start_from ::
  "(client_data \<Rightarrow> bytes) \<Rightarrow> (u64 \<Rightarrow> tcp_answers) \<Rightarrow> workload \<Rightarrow> u64 \<Rightarrow> nat \<Rightarrow> client_error + worker list" where
  "start_from E T wl index 0 = Ok []"
| "start_from E T wl index (Suc n) =
     (let sid = index + 1
      in case connect E (T sid) sid of
          Inl e \<Rightarrow> Err e
        | Inr c \<Rightarrow>
            (case start_from E T wl (index + 1) n of
               Inl e \<Rightarrow> Err e
             | Inr ws \<Rightarrow> Ok (new_worker c wl sid # ws)))"

definition workers_start ::
  "(client_data \<Rightarrow> bytes) \<Rightarrow> (u64 \<Rightarrow> tcp_answers) \<Rightarrow> nat \<Rightarrow> workload \<Rightarrow> client_error + worker list" where
  "workers_start E T n wl = start_from E T wl 0 n"

subsection \<open>Summary\<close>

record summary =
  sm_count :: u64
  sm_blocked :: u64
  sm_errors :: u64
  sm_first_error :: "(client_error \<times> u64) option"
  sm_tx :: u64
  sm_rx :: u64
  sm_total :: nat
  sm_min :: "nat option"
  sm_max :: nat
  sm_weighted :: "(nat \<times> rat) list"
  sm_measured :: nat

text \<open>\<open>Summary::default()\<close>\<close>

definition empty_summary :: summary where
  "empty_summary = \<lparr>sm_count = 0, sm_blocked = 0, sm_errors = 0, sm_first_error = None, sm_tx = 0, sm_rx = 0,
     sm_total = 0, sm_min = None, sm_max = 0, sm_weighted = [], sm_measured = 0\<rparr>"

definition merge :: "summary \<Rightarrow> worker_report \<Rightarrow> summary" where
  "merge s r =
     \<lparr>sm_count = sm_count s + wr_count r, sm_blocked = sm_blocked s + wr_blocked r,
      sm_errors = sm_errors s + wr_errors r,
      sm_first_error = (case sm_first_error s of None \<Rightarrow> wr_first_error r | Some e \<Rightarrow> Some e),
      sm_tx = sm_tx s + wr_tx r, sm_rx = sm_rx s + wr_rx r, sm_total = sm_total s + wr_total r,
      sm_min = (case wr_min r of
         None \<Rightarrow> sm_min s
       | Some m \<Rightarrow> Some (case sm_min s of None \<Rightarrow> m | Some current \<Rightarrow> min current m)),
      sm_max = max (sm_max s) (wr_max r),
      sm_weighted =
        (if wr_samples r = [] then sm_weighted s
         else let weight = of_nat (unat (wr_count r)) / of_nat (length (wr_samples r))
              in sm_weighted s @ map (\<lambda>l. (l, weight)) (wr_samples r)),
      sm_measured = sm_measured s\<rparr>"

text \<open>\<open>Summary::percentile\<close> of latencies sorted in ascending order.\<close>

fun percentile_loop :: "rat \<Rightarrow> rat \<Rightarrow> (nat \<times> rat) list \<Rightarrow> nat option" where
  "percentile_loop target cumulative [] = None"
| "percentile_loop target cumulative ((latency, weight) # rest) =
     (if target \<le> cumulative + weight then Some latency
      else percentile_loop target (cumulative + weight) rest)"

definition percentile :: "(nat \<times> rat) list \<Rightarrow> rat \<Rightarrow> nat" where
  "percentile sorted_samples fraction =
     (case percentile_loop (fraction * sum_list (map snd sorted_samples)) 0 sorted_samples of
        Some latency \<Rightarrow> latency
      | None \<Rightarrow> (if sorted_samples = [] then 0 else fst (last sorted_samples)))"

text \<open>The share of each worker.\<close>

definition shares :: "u64 \<Rightarrow> nat \<Rightarrow> nat list" where
  "shares iters n =
     map (\<lambda>i. unat (iters div of_nat n + (if of_nat i < iters mod of_nat n then 1 else 0))) [0..<n]"

text \<open>
  \<open>Workers::run\<close>: the workers run independently, each leaving a default report for the next batch; the reports
  are merged in the order \<open>arrival\<close> in which they come, an arrangement of the workers' indexes.
\<close>

definition workers_run ::
  "(client_data \<Rightarrow> bytes) \<Rightarrow> (u64 \<Rightarrow> nat) \<Rightarrow> nat \<Rightarrow> nat list \<Rightarrow> u64 \<Rightarrow> worker list \<Rightarrow> summary
    \<Rightarrow> (worker list \<times> summary) option" where
  "workers_run E latency elapsed arrival iters ws s =
     (case those (map2 (worker_run E latency) (shares iters (length ws)) ws) of
        None \<Rightarrow> None
      | Some ws' \<Rightarrow>
          (let s' = foldl merge s (map (\<lambda>i. wk_report (ws' ! i)) arrival)
           in Some (map (\<lambda>w. w\<lparr>wk_report := default_report\<rparr>) ws', s'\<lparr>sm_measured := sm_measured s' + elapsed\<rparr>)))"

subsection \<open>The wait ends\<close>

lemma wait_loop_simps:
  "wait_loop obs before touches deadline i =
     (if touches \<le> ct_loads (counters_since (fst (obs i)) before) \<or> deadline \<le> snd (obs i) then Some (fst (obs i))
      else wait_loop obs before touches deadline (i + 1))"
  by (subst wait_loop.simps) (simp split: prod.splits)

lemma wait_loop_ends:
  assumes "touches \<le> ct_loads (counters_since (fst (obs (i + k))) before) \<or> deadline \<le> snd (obs (i + k))"
  shows "\<exists>j\<le>k. wait_loop obs before touches deadline i = Some (fst (obs (i + j))) \<and>
    (touches \<le> ct_loads (counters_since (fst (obs (i + j))) before) \<or> deadline \<le> snd (obs (i + j))) \<and>
    (\<forall>l<j. \<not> touches \<le> ct_loads (counters_since (fst (obs (i + l))) before) \<and> snd (obs (i + l)) < deadline)"
  using assms
proof (induction k arbitrary: i)
  case 0
  then show ?case by (subst wait_loop_simps) simp
next
  case (Suc k)
  show ?case
  proof (cases "touches \<le> ct_loads (counters_since (fst (obs i)) before) \<or> deadline \<le> snd (obs i)")
    case True
    then show ?thesis by (intro exI [of _ 0]) (subst wait_loop_simps, simp)
  next
    case False
    from Suc.IH [of "i + 1"] Suc.prems obtain j where j: "j \<le> k"
      "wait_loop obs before touches deadline (i + 1) = Some (fst (obs (i + 1 + j)))"
      "touches \<le> ct_loads (counters_since (fst (obs (i + 1 + j))) before) \<or> deadline \<le> snd (obs (i + 1 + j))"
      "\<forall>l<j. \<not> touches \<le> ct_loads (counters_since (fst (obs (i + 1 + l))) before) \<and> snd (obs (i + 1 + l)) < deadline"
      by auto
    with False show ?thesis
      by (intro exI [of _ "Suc j"]) (subst wait_loop_simps, auto simp: less_Suc_eq_0_disj)
  qed
qed

subsection \<open>Shares\<close>

lemma sum_first: "sum_list (map (\<lambda>i. if i < m then 1 else 0 :: nat) [0..<n]) = min m n"
  by (induction n) auto

lemma shares_nat:
  assumes "n < 2 ^ 64" "0 < n"
  shows "shares iters n = map (\<lambda>i. unat iters div n + (if i < unat iters mod n then 1 else 0)) [0..<n]"
proof -
  have n: "unat (of_nat n :: u64) = n" using assms by (simp add: unsigned_of_nat take_bit_nat_eq_self)
  have "unat (iters div of_nat n + (if of_nat i < iters mod of_nat n then 1 else 0)) =
      unat iters div n + (if i < unat iters mod n then 1 else 0)" if "i < n" for i
  proof -
    have i: "unat (of_nat i :: u64) = i" using that assms by (simp add: unsigned_of_nat take_bit_nat_eq_self)
    have less: "of_nat i < iters mod of_nat n \<longleftrightarrow> i < unat iters mod n"
      by (simp add: word_less_nat_alt i n unat_mod_distrib)
    have "unat iters < 2 ^ 64" using unsigned_less [of iters, where ?'a = nat] by simp
    moreover have "unat iters div n + (if i < unat iters mod n then 1 else 0) \<le> unat iters"
    proof (cases "i < unat iters mod n")
      case True
      then have "1 \<le> unat iters mod n" by simp
      moreover have "unat iters div n * 1 \<le> unat iters div n * n" using assms by (intro mult_le_mono) auto
      ultimately have "unat iters div n + 1 \<le> unat iters div n * n + unat iters mod n" by linarith
      then show ?thesis using True by simp
    qed simp
    ultimately have "unat iters div n + (if i < unat iters mod n then 1 else 0) < 2 ^ 64" by linarith
    then show ?thesis
      by (cases "i < unat iters mod n") (simp_all add: less unat_word_ariths unat_div_distrib n)
  qed
  then show ?thesis by (simp add: shares_def)
qed

lemma sum_shares:
  assumes "n < 2 ^ 64" "0 < n"
  shows "sum_list (shares iters n) = unat iters"
proof -
  have "sum_list (shares iters n) = n * (unat iters div n) + min (unat iters mod n) n"
    by (simp add: shares_nat [OF assms] sum_list_addf sum_list_triv sum_first)
  with assms show ?thesis by simp
qed

subsection \<open>The statistics of a worker\<close>

text \<open>What every report satisfies, in mathematical numbers of answers and errors.\<close>

definition report_ok :: "nat \<Rightarrow> nat \<Rightarrow> worker_report \<Rightarrow> bool" where
  "report_ok answers errors r \<longleftrightarrow>
     wr_count r = of_nat answers \<and> wr_errors r = of_nat errors \<and>
     (\<exists>b\<le>answers. wr_blocked r = of_nat b) \<and>
     length (wr_samples r) = min answers RESERVOIR \<and>
     (case wr_min r of
        None \<Rightarrow> answers = 0
      | Some m \<Rightarrow> 0 < answers \<and> m \<le> wr_max r \<and> (\<forall>l\<in>set (wr_samples r). m \<le> l \<and> l \<le> wr_max r)) \<and>
     (wr_first_error r = None \<longleftrightarrow> errors = 0)"

lemma report_ok_default: "report_ok 0 0 default_report"
  by (simp add: report_ok_def default_report_def)

lemma RESERVOIR_pos: "0 < RESERVOIR"
  by (simp add: RESERVOIR_def)

text \<open>Latencies stay between the smallest and the largest.\<close>

lemma report_ok_tally:
  assumes "report_ok k e r" and "\<And>l. l \<in> set xs \<Longrightarrow> l = latency \<or> l \<in> set (wr_samples r)"
    and "length xs = min (Suc k) RESERVOIR"
  shows "report_ok (Suc k) e ((tally latency blocked tx rx r)\<lparr>wr_samples := xs\<rparr>)"
proof -
  from assms(1) obtain b where b: "b \<le> k" "wr_blocked r = of_nat b" by (auto simp: report_ok_def)
  have "\<exists>b'\<le>Suc k. wr_blocked r + (if blocked then 1 else 0) = of_nat b'"
    using b by (intro exI [of _ "b + (if blocked then 1 else 0)"]) simp
  moreover have "xs = [] \<Longrightarrow> False" using assms(3) RESERVOIR_pos by (cases xs) auto
  moreover have "set (wr_samples r) = {}" if "wr_min r = None"
    using assms(1) that by (auto simp: report_ok_def)
  ultimately show ?thesis
    using assms by (fastforce simp: report_ok_def tally_def split: option.splits)
qed

lemma set_list_update: "l \<in> set (xs[i := x]) \<Longrightarrow> l = x \<or> l \<in> set xs"
  using set_update_subset_insert [of xs i x] by blast

lemma report_ok_record:
  assumes "report_ok k e (wk_report w)" "record_reply latency a w = Some w'"
  shows "report_ok (Suc k) e (wk_report w')"
proof -
  let ?r = "wk_report w"
  let ?t = "tally latency (reply_blocked a) (reply_tx a) (reply_rx a) ?r"
  have samples: "wr_samples ?t = wr_samples ?r" by (simp add: tally_def)
  have len: "length (wr_samples ?r) = min k RESERVOIR" using assms(1) by (simp add: report_ok_def)
  note tally = report_ok_tally [OF assms(1), where latency = latency and blocked = "reply_blocked a"
      and tx = "reply_tx a" and rx = "reply_rx a"]
  show ?thesis
  proof (cases "length (wr_samples ?t) < RESERVOIR")
    case True
    with assms(2) have "wk_report w' = ?t\<lparr>wr_samples := wr_samples ?r @ [latency]\<rparr>"
      by (auto simp: record_reply_def Let_def samples)
    moreover have "length (wr_samples ?r @ [latency]) = min (Suc k) RESERVOIR" using True len samples by simp
    ultimately show ?thesis using tally [of "wr_samples ?r @ [latency]"] by auto
  next
    case False
    then have full: "length (wr_samples ?r) = min (Suc k) RESERVOIR" using len samples by simp
    have same: "?t\<lparr>wr_samples := wr_samples ?r\<rparr> = ?t" by (simp add: tally_def)
    from False assms(2) obtain n rng where "below (wk_reservoir_rng w) (wr_count ?t) = Some (n, rng)"
      by (auto simp: record_reply_def Let_def split: option.splits)
    with False assms(2) have
      "wk_report w' = (if unat n < RESERVOIR then ?t\<lparr>wr_samples := (wr_samples ?r)[unat n := latency]\<rparr> else ?t)"
      by (auto simp: record_reply_def Let_def samples)
    moreover have "report_ok (Suc k) e (?t\<lparr>wr_samples := (wr_samples ?r)[unat n := latency]\<rparr>)"
      by (rule tally) (auto simp: full dest: set_list_update)
    moreover have "report_ok (Suc k) e (?t\<lparr>wr_samples := wr_samples ?r\<rparr>)"
      by (rule tally) (simp_all add: full)
    ultimately show ?thesis by (simp add: same)
  qed
qed

text \<open>One batch of a worker: it stops after all its requests or at its first error.\<close>

lemma worker_run_report:
  "worker_run E latency n w = Some w' \<Longrightarrow> report_ok k e (wk_report w) \<Longrightarrow>
    report_ok (k + n) e (wk_report w') \<and> wk_sequence w' = wk_sequence w + of_nat n \<or>
    (\<exists>m<n. report_ok (k + m) (Suc e) (wk_report w') \<and> wk_sequence w' = wk_sequence w + of_nat (Suc m))"
proof (induction n arbitrary: k w)
  case (Suc n)
  let ?seq = "wk_sequence w + 1"
  from Suc.prems(1) obtain ip rng where ip: "next_ip (wk_workload w) (wk_rng w) ?seq = Some (ip, rng)"
    by (auto simp: Let_def split: option.splits)
  obtain r c where check: "check_ip E ip (wk_connection w) = (r, c)" by fastforce
  show ?case
  proof (cases r)
    case (Inl err)
    with Suc.prems ip check have w': "wk_sequence w' = ?seq"
      "wk_report w' = (wk_report w)\<lparr>wr_errors := wr_errors (wk_report w) + 1,
         wr_first_error := (case wr_first_error (wk_report w) of None \<Rightarrow> Some (err, ?seq) | Some f \<Rightarrow> Some f)\<rparr>"
      by (auto simp: Let_def)
    with Suc.prems(2) have "report_ok (k + 0) (Suc e) (wk_report w')"
      by (auto simp: report_ok_def split: option.splits)
    with w'(1) show ?thesis by (intro disjI2 exI [of _ 0]) simp
  next
    case (Inr a)
    let ?w0 = "w\<lparr>wk_sequence := ?seq, wk_rng := rng, wk_connection := c\<rparr>"
    from Suc.prems(1) ip check Inr obtain w1 where w1: "record_reply (latency ?seq) a ?w0 = Some w1"
      "worker_run E latency n w1 = Some w'"
      by (auto simp: Let_def split: option.splits)
    have "report_ok (Suc k) e (wk_report w1)"
      by (rule report_ok_record [OF _ w1(1)]) (simp add: Suc.prems(2))
    moreover have "wk_sequence w1 = ?seq"
      using w1(1) by (auto simp: record_reply_def Let_def split: if_splits option.splits)
    ultimately show ?thesis using Suc.IH [OF w1(2), of "Suc k"]
      by (auto simp: algebra_simps)
  qed
qed simp

subsection \<open>A batch of all workers\<close>

lemma those_Some_iff: "those xs = Some ys \<longleftrightarrow> xs = map Some ys"
proof (induction xs arbitrary: ys)
  case (Cons x xs)
  show ?case by (cases x; cases ys) (auto simp: Cons.IH)
qed auto

lemma foldl_merge:
  "sm_count (foldl merge s rs) = sm_count s + sum_list (map wr_count rs)"
  "sm_blocked (foldl merge s rs) = sm_blocked s + sum_list (map wr_blocked rs)"
  "sm_errors (foldl merge s rs) = sm_errors s + sum_list (map wr_errors rs)"
  by (induction rs arbitrary: s) (simp_all add: merge_def add.assoc)

lemma sum_list_arrival:
  fixes g :: "nat \<Rightarrow> 'a::comm_monoid_add"
  assumes "mset arrival = mset [0..<n]"
  shows "sum_list (map g arrival) = sum_list (map g [0..<n])"
  by (metis assms mset_map sum_mset_sum_list)

lemma sum_list_of_nat: "sum_list (map (\<lambda>i. of_nat (f i)) xs) = of_nat (sum_list (map f xs))"
  by (induction xs) simp_all

lemma sum_list_le: "(\<And>i. i \<in> set xs \<Longrightarrow> f i \<le> g i) \<Longrightarrow> sum_list (map f xs) \<le> sum_list (map g xs)"
  for f g :: "'a \<Rightarrow> nat"
  by (rule sum_list_mono)

lemma length_shares [simp]: "length (shares iters n) = n"
  by (simp add: shares_def)

lemma choice3:
  "\<forall>i<n. \<exists>a e b. P i a e b \<Longrightarrow> \<exists>a e b. \<forall>i<(n :: nat). P i (a i) (e i) (b i)"
  by metis

text \<open>
  The answers, errors and blocked answers of one worker, for a batch that starts from a default
  report and a share of \<open>n\<close> requests.
\<close>

definition batch_result :: "nat \<Rightarrow> worker_report \<Rightarrow> nat \<Rightarrow> nat \<Rightarrow> nat \<Rightarrow> bool" where
  "batch_result n r a e b \<longleftrightarrow> wr_count r = of_nat a \<and> wr_errors r = of_nat e \<and> wr_blocked r = of_nat b \<and>
     b \<le> a \<and> a \<le> n \<and> e \<le> 1 \<and> (e = 0 \<longrightarrow> a = n)"

lemma worker_run_batch:
  assumes "worker_run E latency n w = Some w'" "wk_report w = default_report"
  shows "\<exists>a e b. batch_result n (wk_report w') a e b"
proof -
  consider "report_ok n 0 (wk_report w')" | m where "m < n" "report_ok m (Suc 0) (wk_report w')"
    using worker_run_report [OF assms(1), of 0 0] report_ok_default assms(2) by auto
  then show ?thesis
  proof cases
    case 1
    then obtain b where "b \<le> n" "wr_blocked (wk_report w') = of_nat b" by (auto simp: report_ok_def)
    with 1 have "batch_result n (wk_report w') n 0 b" by (simp add: report_ok_def batch_result_def)
    then show ?thesis by blast
  next
    case 2
    then obtain b where "b \<le> m" "wr_blocked (wk_report w') = of_nat b" by (auto simp: report_ok_def)
    with 2 have "batch_result n (wk_report w') m (Suc 0) b" by (simp add: report_ok_def batch_result_def)
    then show ?thesis by blast
  qed
qed

lemma workers_run_reports:
  assumes "those (map2 (worker_run E latency) (shares iters (length ws)) ws) = Some ws'"
    and "list_all (\<lambda>w. wk_report w = default_report) ws"
  shows "length ws' = length ws \<and>
    (\<exists>a e b. \<forall>i<length ws. batch_result (shares iters (length ws) ! i) (wk_report (ws' ! i)) (a i) (e i) (b i))"
proof -
  from assms(1) have run: "map2 (worker_run E latency) (shares iters (length ws)) ws = map Some ws'"
    by (simp only: those_Some_iff)
  from arg_cong [OF run, of length] have l: "length ws' = length ws" by simp
  have "\<exists>a e b. batch_result (shares iters (length ws) ! i) (wk_report (ws' ! i)) a e b" if i: "i < length ws" for i
  proof (rule worker_run_batch)
    have "map2 (worker_run E latency) (shares iters (length ws)) ws ! i = Some (ws' ! i)"
      unfolding run using i l by simp
    then show "worker_run E latency (shares iters (length ws) ! i) (ws ! i) = Some (ws' ! i)" using i by simp
    show "wk_report (ws ! i) = default_report" using assms(2) i by (simp add: list_all_length)
  qed
  then show ?thesis using l by (intro conjI choice3) simp_all
qed

lemma sum_list_nth: "sum_list (map (\<lambda>i. xs ! i) [0..<length xs]) = sum_list (xs :: nat list)"
  by (simp add: map_nth)

subsection \<open>Started workers\<close>

lemma start_from_Ok:
  "start_from E T wl index n = Ok ws \<Longrightarrow>
    length ws = n \<and> list_all (\<lambda>w. wk_report w = default_report \<and> wk_sequence w = 0 \<and> wk_workload w = wl) ws \<and>
    map wk_rng ws = map (\<lambda>i. rng_new (0x1000 + (index + of_nat i + 1))) [0..<n]"
proof (induction n arbitrary: index ws)
  case (Suc n)
  then obtain c ws' where ws: "ws = new_worker c wl (index + 1) # ws'" "start_from E T wl (index + 1) n = Ok ws'"
    by (auto simp: Let_def split: sum.splits)
  have "map (\<lambda>i. rng_new (0x1000 + (index + of_nat i + 1))) [0..<Suc n] =
      rng_new (0x1000 + (index + 1)) # map (\<lambda>i. rng_new (0x1000 + (index + 1 + of_nat i + 1))) [0..<n]"
    by (simp add: upt_conv_Cons map_Suc_upt [symmetric] algebra_simps del: upt_Suc)
  with Suc.IH [OF ws(2)] show ?case by (simp add: ws(1) new_worker_def)
qed simp

lemma workers_start_fresh:
  "workers_start E T n wl = Ok ws \<Longrightarrow> length ws = n \<and> list_all (\<lambda>w. wk_report w = default_report) ws"
  using start_from_Ok [of E T wl 0 n ws] by (auto simp: workers_start_def list_all_iff)

lemma xor_right_cancel: "x XOR k = y XOR k \<Longrightarrow> x = (y :: 'a::len word)"
  by (drule arg_cong [of _ _ "\<lambda>z. z XOR k"]) (simp add: xor.assoc)

text \<open>No two workers of a run share a random sequence's seed.\<close>

lemma workers_start_seeds:
  assumes "workers_start E T n wl = Ok ws" "n < 2 ^ 64"
  shows "distinct (map wk_rng ws)"
proof -
  have "inj_on (\<lambda>i. rng_new (0x1000 + (0 + of_nat i + 1))) {0..<n}"
  proof (rule inj_onI)
    fix i j :: nat
    assume ij: "i \<in> {0..<n}" "j \<in> {0..<n}"
      and "rng_new (0x1000 + (0 + of_nat i + 1)) = rng_new (0x1000 + (0 + of_nat j + 1))"
    then have "(of_nat i :: u64) = of_nat j" by (auto simp: rng_new_def dest: xor_right_cancel)
    then have "unat (of_nat i :: u64) = unat (of_nat j :: u64)" by simp
    with ij assms(2) show "i = j" by (simp add: unsigned_of_nat take_bit_nat_eq_self)
  qed
  with start_from_Ok [of E T wl 0 n ws] assms(1) show ?thesis
    by (simp add: workers_start_def distinct_map)
qed

subsection \<open>Totals of a batch\<close>

lemma workers_run_total:
  assumes "workers_run E latency elapsed arrival iters ws s = Some (ws', s')"
    and "mset arrival = mset [0..<length ws]" "ws \<noteq> []" "length ws < 2 ^ 64"
    and "list_all (\<lambda>w. wk_report w = default_report) ws"
  shows "\<exists>answers errors blocked.
    sm_count s' = sm_count s + of_nat answers \<and> sm_errors s' = sm_errors s + of_nat errors \<and>
    sm_blocked s' = sm_blocked s + of_nat blocked \<and> blocked \<le> answers \<and>
    answers \<le> unat iters \<and> errors \<le> length ws \<and> (errors = 0 \<longrightarrow> answers = unat iters) \<and>
    list_all (\<lambda>w. wk_report w = default_report) ws' \<and> length ws' = length ws"
proof -
  let ?n = "length ws" and ?sh = "shares iters (length ws)"
  from assms(1) obtain ws1 where run: "those (map2 (worker_run E latency) ?sh ws) = Some ws1"
    and ws': "ws' = map (\<lambda>w. w\<lparr>wk_report := default_report\<rparr>) ws1"
    and s': "s' = (let t = foldl merge s (map (\<lambda>i. wk_report (ws1 ! i)) arrival) in t\<lparr>sm_measured := sm_measured t + elapsed\<rparr>)"
    by (auto simp: workers_run_def Let_def split: option.splits)
  from workers_run_reports [OF run assms(5)] obtain a e b where l: "length ws1 = ?n" and
    abe: "\<forall>i<?n. batch_result (?sh ! i) (wk_report (ws1 ! i)) (a i) (e i) (b i)" by blast
  note abe = abe [unfolded batch_result_def]
  have total: "sum_list (map f (map (\<lambda>i. wk_report (ws1 ! i)) arrival)) = of_nat (sum_list (map g [0..<?n]))"
    if "\<And>i. i < ?n \<Longrightarrow> f (wk_report (ws1 ! i)) = of_nat (g i)" for f :: "worker_report \<Rightarrow> u64" and g
  proof -
    have "sum_list (map (\<lambda>i. f (wk_report (ws1 ! i))) [0..<?n]) = sum_list (map (\<lambda>i. of_nat (g i)) [0..<?n])"
      by (intro arg_cong [of _ _ sum_list] map_cong) (simp_all add: that)
    then show ?thesis by (simp add: comp_def sum_list_arrival [OF assms(2)] sum_list_of_nat)
  qed
  have shares: "sum_list (map (\<lambda>i. ?sh ! i) [0..<?n]) = unat iters"
    using sum_list_nth [of ?sh] sum_shares [OF assms(4)] assms(3) by simp
  have "sum_list (map b [0..<?n]) \<le> sum_list (map a [0..<?n])"
    by (rule sum_list_le) (use abe in simp)
  moreover have "sum_list (map a [0..<?n]) \<le> unat iters"
    unfolding shares [symmetric] by (rule sum_list_le) (use abe in simp)
  moreover have "sum_list (map e [0..<?n]) \<le> sum_list (map (\<lambda>_. 1) [0..<?n])"
    by (rule sum_list_le) (use abe in simp)
  then have "sum_list (map e [0..<?n]) \<le> ?n" by (simp add: sum_list_triv)
  moreover have "sum_list (map a [0..<?n]) = unat iters" if "sum_list (map e [0..<?n]) = 0"
  proof -
    from that have "\<forall>i<?n. e i = 0" by (auto simp: sum_list_eq_0_iff)
    with abe have "map a [0..<?n] = map (\<lambda>i. ?sh ! i) [0..<?n]" by (intro map_cong) auto
    then show ?thesis by (simp only: shares)
  qed
  ultimately show ?thesis
    using total [of wr_count a] total [of wr_errors e] total [of wr_blocked b] abe l
    by (intro exI [of _ "sum_list (map a [0..<?n])"] exI [of _ "sum_list (map e [0..<?n])"]
        exI [of _ "sum_list (map b [0..<?n])"]) (simp add: s' ws' foldl_merge Let_def list_all_iff)
qed

section \<open>Properties\<close>

text \<open>
  A batch of the load generator is fully accounted for: the requests of the batch are split over the
  connections without remainder, the summary grows by the answers received, in whatever order the workers
  report, never by more than the batch, and by exactly the batch when no connection failed; each connection counts at most
  one error per batch, blocked answers are answers, and every worker starts the next batch with a fresh report.
\<close>

theorem load_run_accounts:
  assumes "workers_run E latency elapsed arrival iters ws s = Some (ws', s')"
    and "mset arrival = mset [0..<length ws]" "ws \<noteq> []" "length ws < 2 ^ 64"
    and "list_all (\<lambda>w. wk_report w = default_report) ws"
  shows "\<exists>answers errors blocked.
    sm_count s' = sm_count s + of_nat answers \<and> sm_errors s' = sm_errors s + of_nat errors \<and>
    sm_blocked s' = sm_blocked s + of_nat blocked \<and> blocked \<le> answers \<and>
    answers \<le> unat iters \<and> errors \<le> length ws \<and> (errors = 0 \<longrightarrow> answers = unat iters) \<and>
    list_all (\<lambda>w. wk_report w = default_report) ws' \<and> length ws' = length ws"
  by (rule workers_run_total [OF assms])

text \<open>One worker whose connection has a blocked answer waiting.\<close>

definition one_worker :: worker where
  "one_worker = \<lparr>wk_connection = \<lparr>stream_id = 1, next_frame_id = 7, to_read = framed (ack_body 1 7 True),
       written = [], write_error = None\<rparr>,
     wk_workload = Fixed [V4 1], wk_rng = 0, wk_reservoir_rng = 0, wk_sequence = 0, wk_report = default_report\<rparr>"

lemma one_worker_run:
  "\<exists>w. worker_run (\<lambda>_. [6]) (\<lambda>_. 30) 1 one_worker = Some w \<and> wr_errors (wk_report w) = 0"
proof -
  obtain a c where "check_ip (\<lambda>_. [6]) (V4 1) (wk_connection one_worker) = (Ok a, c)"
    by (auto simp: one_worker_def check_ip_def Let_def write_all_def read_ack [where rest = "[]", simplified] decode_ack_body)
  then show ?thesis
    by (simp add: one_worker_def record_reply_def tally_def default_report_def RESERVOIR_def Let_def)
qed

theorem load_run_accounts_witness:
  "\<exists>ws s. workers_run (\<lambda>_. [6]) (\<lambda>_. 30) 40 [0] 1 [one_worker] empty_summary = Some (ws, s) \<and> sm_count s = 1"
proof -
  obtain w where w: "worker_run (\<lambda>_. [6]) (\<lambda>_. 30) 1 one_worker = Some w" "wr_errors (wk_report w) = 0"
    using one_worker_run by blast
  then obtain ws s where run: "workers_run (\<lambda>_. [6]) (\<lambda>_. 30) 40 [0] 1 [one_worker] empty_summary = Some (ws, s)"
    "sm_errors s = 0"
    by (simp add: workers_run_def shares_def merge_def empty_summary_def Let_def)
  have fresh: "list_all (\<lambda>w. wk_report w = default_report) [one_worker]" by (simp add: one_worker_def)
  obtain answers errors :: nat where "sm_count s = of_nat answers" "sm_errors s = of_nat errors"
    "answers \<le> 1" "errors \<le> 1" "errors = 0 \<longrightarrow> answers = 1"
    using load_run_accounts [OF run(1) _ _ _ fresh] by (auto simp: empty_summary_def)
  moreover from this run(2) have "errors = 0" by (cases errors) auto
  ultimately show ?thesis using run(1) by simp
qed

text \<open>
  The wait for the watcher's reloads ends: when the clock is monotone and every pause of the loop lasts at least
  50 ms, it returns the counters of one of its first 101 observations, the first one
  that shows the awaited number of reloads or whose time has reached the limit of five seconds.
\<close>

theorem wait_for_reloads_ends:
  assumes "start \<le> snd (obs 0)" "\<And>i. snd (obs i) + 50 * 10 ^ 6 \<le> snd (obs (i + 1))"
  shows "\<exists>j\<le>100. wait_for_reloads start obs before touches = Some (fst (obs j)) \<and>
    (touches \<le> ct_loads (counters_since (fst (obs j)) before) \<or> start + TIMEOUT \<le> snd (obs j)) \<and>
    (\<forall>l<j. \<not> touches \<le> ct_loads (counters_since (fst (obs l)) before) \<and> snd (obs l) < start + TIMEOUT)"
proof -
  have "start + i * (50 * 10 ^ 6) \<le> snd (obs i)" for i
  proof (induction i)
    case (Suc i)
    with assms(2) [of i] show ?case by simp
  qed (use assms(1) in simp)
  from this [of 100] have "start + TIMEOUT \<le> snd (obs (0 + 100))" by (simp add: TIMEOUT_def)
  with wait_loop_ends [of touches obs 0 100 before "start + TIMEOUT"] show ?thesis
    by (simp add: wait_for_reloads_def)
qed

theorem wait_for_reloads_ends_witness:
  "\<exists>j\<le>100. wait_for_reloads 7 (\<lambda>i. (\<lparr>ct_allowed = 0, ct_blocked = 0, ct_loads = of_nat i\<rparr>, 7 + i * 60000000))
     \<lparr>ct_allowed = 0, ct_blocked = 0, ct_loads = 0\<rparr> 3 = Some \<lparr>ct_allowed = 0, ct_blocked = 0, ct_loads = of_nat j\<rparr>"
  using wait_for_reloads_ends [of 7 "\<lambda>i. (\<lparr>ct_allowed = 0, ct_blocked = 0, ct_loads = of_nat i\<rparr>, 7 + i * 60000000)"
      "\<lparr>ct_allowed = 0, ct_blocked = 0, ct_loads = 0\<rparr>" 3] by fastforce

end
