(* ===== verification/Bench_Run.thy ===== *)
theory Bench_Run
  imports Bench_Agent Load_Generator Watcher_Life
begin

text \<open>
  The benchmarks of \<open>benches/spoe/main.rs\<close> that talk to the agent: the loops over one connection, the concurrent
  load in all its batches, the thread that touches the database file, and the reading of the process's CPU time.
  How many iterations and batches are run is Criterion's choice and a parameter. \<open>None\<close> is a panic, or a loop that never ends.
\<close>

subsection \<open>One connection\<close>

record single =
  sg_connection :: connection
  sg_rng :: split_mix
  sg_sequence :: u64
  sg_blocked :: u64

text \<open>The iterations of \<open>spoe_roundtrip\<close>; an error of the client panics.\<close>

fun roundtrip_run :: "(client_data \<Rightarrow> bytes) \<Rightarrow> workload \<Rightarrow> nat \<Rightarrow> single \<Rightarrow> single option" where
  "roundtrip_run E wl 0 s = Some s"
| "roundtrip_run E wl (Suc n) s =
     (let sequence = sg_sequence s + 1
      in case next_ip wl (sg_rng s) sequence of
          None \<Rightarrow> None
        | Some (ip, rng) \<Rightarrow>
            (case check_ip E ip (sg_connection s) of
               (Inl e, _) \<Rightarrow> None
             | (Inr a, c) \<Rightarrow>
                 roundtrip_run E wl n
                   \<lparr>sg_connection = c, sg_rng = rng, sg_sequence = sequence,
                    sg_blocked = sg_blocked s + (if reply_blocked a then 1 else 0)\<rparr>))"

definition PIPELINE_DEPTH :: nat where "PIPELINE_DEPTH = 32"

text \<open>The addresses of one pipelined batch.\<close>

fun fill_batch :: "workload \<Rightarrow> nat \<Rightarrow> split_mix \<Rightarrow> u64 \<Rightarrow> (ip_addr list \<times> split_mix \<times> u64) option" where
  "fill_batch wl 0 rng sequence = Some ([], rng, sequence)"
| "fill_batch wl (Suc n) rng sequence =
     (case next_ip wl rng (sequence + 1) of
        None \<Rightarrow> None
      | Some (ip, rng1) \<Rightarrow>
          map_option (\<lambda>(ips, rest). (ip # ips, rest)) (fill_batch wl n rng1 (sequence + 1)))"

text \<open>The iterations of \<open>spoe_pipelined\<close>, with the replies.\<close>

fun pipelined_run ::
  "(client_data \<Rightarrow> bytes) \<Rightarrow> workload \<Rightarrow> nat \<Rightarrow> connection \<Rightarrow> split_mix \<Rightarrow> u64 \<Rightarrow> batch_reply list option" where
  "pipelined_run E wl 0 c rng sequence = Some []"
| "pipelined_run E wl (Suc n) c rng sequence =
     (case fill_batch wl PIPELINE_DEPTH rng sequence of
        None \<Rightarrow> None
      | Some (ips, rng1, sequence1) \<Rightarrow>
          (case check_pipelined E ips c of
             Some (Inr a, c1) \<Rightarrow> map_option ((#) a) (pipelined_run E wl n c1 rng1 sequence1)
           | _ \<Rightarrow> None))"

subsection \<open>The concurrent load\<close>

text \<open>The batches of a benchmark: duration, order of the reports and requests of each.\<close>

fun run_batches ::
  "(client_data \<Rightarrow> bytes) \<Rightarrow> (u64 \<Rightarrow> nat) \<Rightarrow> (nat \<times> nat list \<times> u64) list \<Rightarrow> worker list \<Rightarrow> summary
    \<Rightarrow> (worker list \<times> summary) option" where
  "run_batches E latency [] ws s = Some (ws, s)"
| "run_batches E latency ((elapsed, arrival, iters) # bs) ws s =
     (case workers_run E latency elapsed arrival iters ws s of
        None \<Rightarrow> None
      | Some (ws', s') \<Rightarrow> run_batches E latency bs ws' s')"

text \<open>What a case of \<open>spoe_concurrent\<close> sees besides: the counters, the toucher's count and the wait's observations.\<close>

record case_view =
  cv_before :: counters
  cv_after :: counters
  cv_touches_before :: u64
  cv_touches_after :: u64
  cv_wait_start :: nat
  cv_wait :: "nat \<Rightarrow> counters \<times> nat"

datatype case_result = Nothing_Ran | Reported summary counters "u64 option"

definition concurrent_case ::
  "(client_data \<Rightarrow> bytes) \<Rightarrow> (u64 \<Rightarrow> tcp_answers) \<Rightarrow> (u64 \<Rightarrow> nat) \<Rightarrow> workload \<Rightarrow> bool \<Rightarrow> case_view
    \<Rightarrow> (nat \<times> nat list \<times> u64) list \<Rightarrow> nat \<Rightarrow> case_result option" where
  "concurrent_case E T latency wl hot_reload V bs connections =
     (case workers_start E T connections wl of
        Inl _ \<Rightarrow> None
      | Inr ws \<Rightarrow>
          (case run_batches E latency bs ws empty_summary of
             None \<Rightarrow> None
           | Some (_, s) \<Rightarrow>
               if sm_count s = 0 then Some Nothing_Ran
               else
                 let touches = cv_touches_after V - cv_touches_before V
                 in case (if hot_reload then wait_for_reloads (cv_wait_start V) (cv_wait V) (cv_before V) touches
                          else Some (cv_after V)) of
                     None \<Rightarrow> None
                   | Some now \<Rightarrow>
                       Some (Reported s (counters_since now (cv_before V)) (if hot_reload then Some touches else None))))"

subsection \<open>The toucher\<close>

text \<open>Nanoseconds.\<close>

definition TOUCH_INTERVAL :: nat where "TOUCH_INTERVAL = 10 ^ 9"

text \<open>What a turn of the loop sees: the stop flag, the clock after the pause and again, and the touch.\<close>

record touch_turn =
  tt_stop :: bool
  tt_now :: nat
  tt_again :: nat
  tt_touch :: "string + unit"

text \<open>The touches made, the error that ended the thread, if any, and the turns started.\<close>

partial_function (option) touch_loop ::
  "(nat \<Rightarrow> touch_turn) \<Rightarrow> nat \<Rightarrow> u64 \<Rightarrow> nat \<Rightarrow> (u64 \<times> string option \<times> nat) option" where
  "touch_loop obs next_touch touches i =
     (if tt_stop (obs i) then Some (touches, None, i)
      else if tt_now (obs i) < next_touch then touch_loop obs next_touch touches (i + 1)
      else (case tt_touch (obs i) of
              Inr _ \<Rightarrow> touch_loop obs (tt_again (obs i) + TOUCH_INTERVAL) (touches + 1) (i + 1)
            | Inl e \<Rightarrow> Some (touches, Some e, i + 1)))"

definition toucher_run :: "nat \<Rightarrow> (nat \<Rightarrow> touch_turn) \<Rightarrow> (u64 \<times> string option \<times> nat) option" where
  "toucher_run start obs = touch_loop obs (start + TOUCH_INTERVAL) 0 0"

subsection \<open>The process's CPU time\<close>

text \<open>\<open>str::split_whitespace\<close>: a word, and the words of the rest.\<close>

fun word_of :: "string \<Rightarrow> string \<times> string" where
  "word_of [] = ([], [])"
| "word_of (c # cs) =
     (if leading white_space (c # cs) \<noteq> None then ([], c # cs)
      else (case word_of cs of (w, rest) \<Rightarrow> (c # w, rest)))"

lemma word_of_append: "word_of s = (w, rest) \<Longrightarrow> s = w @ rest"
  by (induction s arbitrary: w) (auto split: if_splits prod.splits)

function split_whitespace :: "string \<Rightarrow> string list" where
  "split_whitespace s =
     (case word_of (trim_start s) of
        ([], rest) \<Rightarrow> []
      | (w, rest) \<Rightarrow> w # split_whitespace rest)"
  by pat_completeness auto

termination
proof (relation "measure length")
  fix s w rest c cs
  assume "(w, rest) = word_of (trim_start s)" "w = c # cs"
  then have "trim_start s = (c # cs) @ rest" by (intro word_of_append) simp
  then have "length rest < length (trim_start s)" by simp
  also have "\<dots> \<le> length s" unfolding trim_start_def by (rule suffix_length_le [OF strip_leading_suffix])
  finally show "(rest, s) \<in> measure length" by simp
qed simp

declare split_whitespace.simps [simp del]

text \<open>\<open>str::rsplit_once\<close>\<close>

definition rsplit_once :: "char \<Rightarrow> string \<Rightarrow> (string \<times> string) option" where
  "rsplit_once c s = map_option (\<lambda>(post, pre). (rev pre, rev post)) (split_once c (rev s))"

text \<open>The text of \<open>/proc/self/stat\<close>, if it can be read; \<open>parse_f64\<close> is the number parser.\<close>

definition process_cpu_seconds :: "(string \<Rightarrow> rat option) \<Rightarrow> string option \<Rightarrow> rat option" where
  "process_cpu_seconds parse_f64 stat =
     (case stat of
        None \<Rightarrow> None
      | Some s \<Rightarrow>
     (case rsplit_once CHR '')'' s of
        None \<Rightarrow> None
      | Some (_, rest) \<Rightarrow>
          let fields = split_whitespace rest
          in case (case vec_get fields 11 of None \<Rightarrow> None | Some f \<Rightarrow> parse_f64 f) of
              None \<Rightarrow> None
            | Some utime \<Rightarrow>
                (case (case vec_get fields 12 of None \<Rightarrow> None | Some f \<Rightarrow> parse_f64 f) of
                   None \<Rightarrow> None
                 | Some stime \<Rightarrow> Some ((utime + stime) / 100))))"

text \<open>
  The command name, which may contain blanks and parentheses, does not matter: only what follows the last
  parenthesis is read.
\<close>

lemma rsplit_once_last:
  assumes "c \<notin> set rest"
  shows "rsplit_once c (pre @ c # rest) = Some (pre, rest)"
  using split_once_append [of c "rev rest" "rev pre"] assms by (simp add: rsplit_once_def)

lemma cpu_seconds_command_free:
  "CHR '')'' \<notin> set rest \<Longrightarrow>
    process_cpu_seconds parse_f64 (Some (pre @ CHR '')'' # rest)) = process_cpu_seconds parse_f64 (Some (pre' @ CHR '')'' # rest))"
  by (simp add: process_cpu_seconds_def rsplit_once_last)

subsection \<open>All batches of a case\<close>

fun_cases run_batches_ConsE: "run_batches E latency ((elapsed, arrival, iters) # bs) ws s = Some r"

lemma foldl_merge_measured [simp]: "sm_measured (foldl merge s rs) = sm_measured s"
  by (induction rs arbitrary: s) (simp_all add: merge_def)

lemma workers_run_measured:
  "workers_run E latency elapsed arrival iters ws s = Some (ws', s') \<Longrightarrow> sm_measured s' = sm_measured s + elapsed"
  by (auto simp: workers_run_def Let_def split: option.splits)

definition requests_of :: "(nat \<times> nat list \<times> u64) list \<Rightarrow> nat" where
  "requests_of bs = sum_list (map (\<lambda>(_, _, iters). unat iters) bs)"

lemma run_batches_total:
  assumes "run_batches E latency bs ws s = Some (ws', s')"
    and "list_all (\<lambda>(_, arrival, _). mset arrival = mset [0..<length ws]) bs"
    and "ws \<noteq> []" "length ws < 2 ^ 64" "list_all (\<lambda>w. wk_report w = default_report) ws"
  shows "\<exists>answers errors blocked.
    sm_count s' = sm_count s + of_nat answers \<and> sm_errors s' = sm_errors s + of_nat errors \<and>
    sm_blocked s' = sm_blocked s + of_nat blocked \<and> blocked \<le> answers \<and>
    answers \<le> requests_of bs \<and> errors \<le> length ws * length bs \<and>
    (errors = 0 \<longrightarrow> answers = requests_of bs) \<and>
    sm_measured s' = sm_measured s + sum_list (map fst bs)"
  using assms
proof (induction bs arbitrary: ws s)
  case Nil
  then show ?case by (intro exI [of _ 0]) (simp add: requests_of_def)
next
  case (Cons x bs)
  obtain elapsed arrival iters where x: "x = (elapsed, arrival, iters)" by (cases x)
  from Cons.prems(1) obtain ws1 s1 where one: "workers_run E latency elapsed arrival iters ws s = Some (ws1, s1)"
    and rest: "run_batches E latency bs ws1 s1 = Some (ws', s')"
    unfolding x by (elim run_batches_ConsE) (auto split: option.splits)
  have arrival: "mset arrival = mset [0..<length ws]" using Cons.prems(2) by (simp add: x)
  obtain a e b where first: "sm_count s1 = sm_count s + of_nat a" "sm_errors s1 = sm_errors s + of_nat e"
    "sm_blocked s1 = sm_blocked s + of_nat b" "b \<le> a" "a \<le> unat iters" "e \<le> length ws"
    "e = 0 \<longrightarrow> a = unat iters" "list_all (\<lambda>w. wk_report w = default_report) ws1" "length ws1 = length ws"
    using workers_run_total [OF one arrival Cons.prems(3-5)] by blast
  have "ws1 \<noteq> []" using first(9) Cons.prems(3) by auto
  then obtain a' e' b' where others: "sm_count s' = sm_count s1 + of_nat a'" "sm_errors s' = sm_errors s1 + of_nat e'"
    "sm_blocked s' = sm_blocked s1 + of_nat b'" "b' \<le> a'" "a' \<le> requests_of bs" "e' \<le> length ws * length bs"
    "e' = 0 \<longrightarrow> a' = requests_of bs" "sm_measured s' = sm_measured s1 + sum_list (map fst bs)"
    using Cons.IH [OF rest _ _ _ first(8)] Cons.prems(2,4) by (auto simp: first(9) x)
  show ?case
    using first(1-7) others workers_run_measured [OF one]
    by (intro exI [of _ "a + a'"] exI [of _ "e + e'"] exI [of _ "b + b'"]) (simp add: x requests_of_def)
qed

lemma roundtrip_counts:
  "roundtrip_run E wl n s = Some s' \<Longrightarrow>
    sg_sequence s' = sg_sequence s + of_nat n \<and> (\<exists>b\<le>n. sg_blocked s' = sg_blocked s + of_nat b)"
proof (induction n arbitrary: s)
  case (Suc n)
  from Suc.prems obtain ip rng where ip: "next_ip wl (sg_rng s) (sg_sequence s + 1) = Some (ip, rng)"
    by (auto simp: Let_def split: option.splits)
  with Suc.prems obtain a c where "check_ip E ip (sg_connection s) = (Inr a, c)"
    by (cases "check_ip E ip (sg_connection s)") (auto simp: Let_def split: sum.splits)
  with ip Suc.prems have
    "roundtrip_run E wl n \<lparr>sg_connection = c, sg_rng = rng, sg_sequence = sg_sequence s + 1,
       sg_blocked = sg_blocked s + (if reply_blocked a then 1 else 0)\<rparr> = Some s'"
    by (simp add: Let_def)
  from Suc.IH [OF this] obtain b where b: "b \<le> n"
    "sg_blocked s' = sg_blocked s + (if reply_blocked a then 1 else 0) + of_nat b"
    "sg_sequence s' = sg_sequence s + 1 + of_nat n" by auto
  then show ?case
    by (intro conjI exI [of _ "(if reply_blocked a then 1 else 0) + b"]) auto
qed simp

subsection \<open>The toucher's clock\<close>

lemma touch_loop_simps:
  "touch_loop obs next_touch touches i =
     (if tt_stop (obs i) then Some (touches, None, i)
      else if tt_now (obs i) < next_touch then touch_loop obs next_touch touches (i + 1)
      else (case tt_touch (obs i) of
              Inr _ \<Rightarrow> touch_loop obs (tt_again (obs i) + TOUCH_INTERVAL) (touches + 1) (i + 1)
            | Inl e \<Rightarrow> Some (touches, Some e, i + 1)))"
  by (subst touch_loop.simps) simp

text \<open>The clock at the end of the previous turn, or at the start.\<close>

definition turn_start :: "nat \<Rightarrow> (nat \<Rightarrow> touch_turn) \<Rightarrow> nat \<Rightarrow> nat" where
  "turn_start start obs i = (if i = 0 then start else tt_now (obs (i - 1)))"

text \<open>A monotone clock, and turns of at most \<open>d\<close>.\<close>

definition steady :: "nat \<Rightarrow> (nat \<Rightarrow> touch_turn) \<Rightarrow> nat \<Rightarrow> bool" where
  "steady start obs d \<longleftrightarrow>
     (\<forall>i. turn_start start obs i \<le> tt_now (obs i) \<and> tt_now (obs i) \<le> turn_start start obs i + d \<and>
        tt_now (obs i) \<le> tt_again (obs i) \<and> tt_again (obs i) \<le> tt_now (obs (i + 1)))"

lemma again_mono:
  assumes "steady start obs d" "i \<le> j"
  shows "tt_again (obs i) \<le> tt_again (obs j)"
proof (rule lift_Suc_mono_le [of "\<lambda>i. tt_again (obs i)", OF _ assms(2)])
  fix n
  show "tt_again (obs n) \<le> tt_again (obs (Suc n))"
    using assms(1) by (simp add: steady_def) (meson le_trans)
qed

lemma touch_loop_bounds:
  assumes "steady start obs d" "tt_stop (obs k)" "i \<le> k"
    and "turn_start start obs i < base + TOUCH_INTERVAL"
  shows "\<exists>m e j. touch_loop obs (base + TOUCH_INTERVAL) t i = Some (t + of_nat m, e, j) \<and> i \<le> j \<and> j \<le> k \<and>
    (0 < m \<longrightarrow> i < j \<and> base + m * TOUCH_INTERVAL \<le> tt_again (obs (j - 1))) \<and>
    (e = None \<longrightarrow> turn_start start obs j < base + m * (TOUCH_INTERVAL + 2 * d) + TOUCH_INTERVAL)"
  using assms(3,4)
proof (induction "k - i" arbitrary: i base t)
  case 0
  with assms(2) show ?case by (intro exI [of _ 0]) (subst touch_loop_simps, simp)
next
  case (Suc n)
  let ?I = TOUCH_INTERVAL
  have here: "turn_start start obs i \<le> tt_now (obs i)" "tt_now (obs i) \<le> turn_start start obs i + d"
    "tt_now (obs i) \<le> tt_again (obs i)" "tt_again (obs i) \<le> tt_now (obs (i + 1))"
    "tt_now (obs (i + 1)) \<le> tt_now (obs i) + d"
    using assms(1) unfolding steady_def by (auto simp: turn_start_def dest: spec [of _ i] spec [of _ "i + 1"])
  have suc: "n = k - (i + 1)" "i + 1 \<le> k" using Suc.hyps(2) by simp_all
  consider (stop) "tt_stop (obs i)" | (early) "\<not> tt_stop (obs i)" "tt_now (obs i) < base + ?I"
    | (failed) e where "\<not> tt_stop (obs i)" "\<not> tt_now (obs i) < base + ?I" "tt_touch (obs i) = Inl e"
    | (touched) "\<not> tt_stop (obs i)" "\<not> tt_now (obs i) < base + ?I" "tt_touch (obs i) = Inr ()"
    by (cases "tt_touch (obs i)") auto
  then show ?case
  proof cases
    case stop
    with Suc.prems show ?thesis by (intro exI [of _ 0] exI [of _ None] exI [of _ i]) (subst touch_loop_simps, simp)
  next
    case early
    then have "turn_start start obs (i + 1) < base + ?I" by (simp add: turn_start_def)
    from Suc.hyps(1) [OF suc this, of t] obtain m e j where
      "touch_loop obs (base + ?I) t (i + 1) = Some (t + of_nat m, e, j)" "i + 1 \<le> j" "j \<le> k"
      "0 < m \<longrightarrow> i + 1 < j \<and> base + m * ?I \<le> tt_again (obs (j - 1))"
      "e = None \<longrightarrow> turn_start start obs j < base + m * (?I + 2 * d) + ?I"
      by blast
    with early show ?thesis
      by (intro exI [of _ m] exI [of _ e] exI [of _ j]) (subst touch_loop_simps, auto)
  next
    case failed
    with suc(2) show ?thesis
      by (intro exI [of _ 0] exI [of _ "Some e"] exI [of _ "i + 1"]) (subst touch_loop_simps, simp)
  next
    case touched
    let ?b = "tt_again (obs i)"
    have "turn_start start obs (i + 1) < ?b + ?I" using here(3) by (simp add: turn_start_def TOUCH_INTERVAL_def)
    from Suc.hyps(1) [OF suc this, of "t + 1"] obtain m e j where rest:
      "touch_loop obs (?b + ?I) (t + 1) (i + 1) = Some (t + 1 + of_nat m, e, j)" "i + 1 \<le> j" "j \<le> k"
      "0 < m \<longrightarrow> i + 1 < j \<and> ?b + m * ?I \<le> tt_again (obs (j - 1))"
      "e = None \<longrightarrow> turn_start start obs j < ?b + m * (?I + 2 * d) + ?I"
      by blast
    have low: "base + ?I \<le> ?b" and high: "?b < base + ?I + 2 * d"
      using touched(2) here Suc.prems(2) by linarith+
    have "?b \<le> tt_again (obs (j - 1))" using rest(2) by (intro again_mono [OF assms(1)]) simp
    then have "base + Suc m * ?I \<le> tt_again (obs (j - 1))" using low rest(4) by (cases "m = 0") auto
    moreover have "e = None \<longrightarrow> turn_start start obs j < base + Suc m * (?I + 2 * d) + ?I"
      using high rest(5) by auto
    ultimately show ?thesis
      using touched rest(1-3)
      by (intro exI [of _ "Suc m"] exI [of _ e] exI [of _ j]) (subst touch_loop_simps, simp add: ac_simps)
  qed
qed

subsection \<open>A database that is touched\<close>

text \<open>The file system after the first \<open>k\<close> touches, none of which fails, at the given times.\<close>

definition touched :: "path \<Rightarrow> system_time list \<Rightarrow> fs \<Rightarrow> nat \<Rightarrow> fs" where
  "touched p ts fs k = foldl (\<lambda>fs t. snd (touch_database None None t p fs)) fs (take k ts)"

lemma touched_file:
  assumes "fs p = Some f"
  shows "touched p ts fs k p = Some (f\<lparr>file_mtime := last (file_mtime f # take k ts)\<rparr>)"
proof -
  have "foldl (\<lambda>fs t. snd (touch_database None None t p fs)) fs us p = Some (f\<lparr>file_mtime := last (file_mtime f # us)\<rparr>)" for us
    using assms by (induction us rule: rev_induct) (auto simp: touch_database_def)
  then show ?thesis by (simp add: touched_def)
qed

text \<open>
  A turn of the watcher: the number of touches when it asks for the modification time, when it reads the
  content, and the batch.
\<close>

type_synonym touched_turn = "(nat \<times> nat) \<times> event_batch"

definition turn_views :: "path \<Rightarrow> system_time list \<Rightarrow> fs \<Rightarrow> touched_turn \<Rightarrow> (os_view \<times> os_view) \<times> event_batch" where
  "turn_views p ts fs turn =
     (case turn of ((k, k'), batch) \<Rightarrow> ((view_of (touched p ts fs k), view_of (touched p ts fs k')), batch))"

text \<open>The numbers of touches that relevant batches observe.\<close>

definition observed :: "string \<Rightarrow> touched_turn list \<Rightarrow> nat list" where
  "observed name turns = map (fst \<circ> fst) (filter (\<lambda>(_, b). starts_reload name b) turns)"

text \<open>The modification time after \<open>k\<close> touches.\<close>

definition stamp :: "fs_file \<Rightarrow> system_time list \<Rightarrow> nat \<Rightarrow> system_time" where
  "stamp f ts k = (file_mtime f # ts) ! k"

lemma stamp_inject:
  "distinct (file_mtime f # ts) \<Longrightarrow> k0 \<le> length ts \<Longrightarrow> k \<le> length ts \<Longrightarrow> stamp f ts k0 = stamp f ts k \<longleftrightarrow> k0 = k"
  unfolding stamp_def by (rule nth_eq_iff_index_eq) simp_all

lemma touched_views:
  assumes "fs p = Some f"
  shows "k \<le> length ts \<Longrightarrow> os_modified (view_of (touched p ts fs k)) p = Inr (stamp f ts k)"
    and "os_read (view_of (touched p ts fs k)) p = Inr (file_content f)"
proof -
  note found = touched_file [of fs p f ts k, OF assms]
  show "os_read (view_of (touched p ts fs k)) p = Inr (file_content f)" by (simp add: view_of_def found)
  assume "k \<le> length ts"
  then have "last (file_mtime f # take k ts) = stamp f ts k"
    unfolding stamp_def by (cases k) (auto simp: last_conv_nth min_def)
  then show "os_modified (view_of (touched p ts fs k)) p = Inr (stamp f ts k)" by (simp add: view_of_def found)
qed

lemma touched_step:
  assumes "fs p = Some f" "g_from_bytes G (file_content f) = Inr rd" "distinct (file_mtime f # ts)"
    and "k0 \<le> length ts" "k \<le> length ts"
    and "snapshot st = Some \<lparr>reader = rd, modified = Some (stamp f ts k0)\<rparr>"
  shows "\<exists>out evs. watch_step G p name (fst (turn_views p ts fs ((k, k'), b))) b st =
      (out, (if starts_reload name b then st\<lparr>snapshot := Some \<lparr>reader = rd, modified = Some (stamp f ts k)\<rparr>\<rparr> else st), evs) \<and>
    counter_total MMDB_FILE_LOADED evs = (if starts_reload name b \<and> k \<noteq> k0 then 1 else 0)"
proof -
  have "st = st\<lparr>snapshot := Some \<lparr>reader = rd, modified = Some (stamp f ts k0)\<rparr>\<rparr>"
    using assms(6) by (cases st) simp
  with stamp_inject [OF assms(3-5)] show ?thesis
    using assms(6) touched_views(1) [of fs p f k ts, OF assms(1)] touched_views(2) [of fs p f ts k', OF assms(1)] assms(2,5)
    by (cases b) (auto simp: turn_views_def watch_step_def starts_reload_def reload_if_changed_def load_locked_def metric_defs)
qed

lemma card_insert_above:
  assumes "\<forall>l\<in>set ks. k \<le> l" "k0 < k"
  shows "card (set (k # ks) - {k0}) = Suc (card (set ks - {k :: nat}))"
proof -
  have "set (k # ks) - {k0} = insert k (set ks - {k})" using assms by auto
  moreover have "card (insert k (set ks - {k})) = Suc (card (set ks - {k}))"
    by (rule card_insert_disjoint) simp_all
  ultimately show ?thesis by (simp only:)
qed

lemma touched_loop:
  assumes "fs p = Some f" "g_from_bytes G (file_content f) = Inr rd" "distinct (file_mtime f # ts)"
    and "k0 \<le> length ts" "\<forall>k\<in>set (map (fst \<circ> fst) turns). k0 \<le> k \<and> k \<le> length ts"
    and "sorted (map (fst \<circ> fst) turns)"
    and "snapshot st = Some \<lparr>reader = rd, modified = Some (stamp f ts k0)\<rparr>"
    and "watch_loop G p name (map (turn_views p ts fs) turns) st = (outs, st', evs)"
  shows "counter_total MMDB_FILE_LOADED evs = card (set (observed name turns) - {k0}) \<and>
    (\<exists>k. snapshot st' = Some \<lparr>reader = rd, modified = Some (stamp f ts k)\<rparr>)"
  using assms(4-8)
proof (induction turns arbitrary: st k0 outs evs)
  case Nil
  then show ?case by (auto simp: observed_def)
next
  case (Cons turn turns)
  obtain k k' b where turn: "turn = ((k, k'), b)" by (metis prod.collapse)
  have le: "k0 \<le> k" "k \<le> length ts" "\<forall>l\<in>set (map (fst \<circ> fst) turns). k \<le> l \<and> l \<le> length ts"
    "\<forall>l\<in>set (map (fst \<circ> fst) turns). k0 \<le> l \<and> l \<le> length ts" "sorted (map (fst \<circ> fst) turns)"
    using Cons.prems(2,3) by (auto simp: turn comp_def)
  let ?st = "st\<lparr>snapshot := Some \<lparr>reader = rd, modified = Some (stamp f ts k)\<rparr>\<rparr>"
  from touched_step [of fs p f G rd ts k0 k st name k' b, OF assms(1-3) Cons.prems(1) le(2) Cons.prems(4)] obtain out evs1 where
    step: "watch_step G p name (fst (turn_views p ts fs turn)) b st = (out, (if starts_reload name b then ?st else st), evs1)"
    and one: "counter_total MMDB_FILE_LOADED evs1 = (if starts_reload name b \<and> k \<noteq> k0 then 1 else 0)"
    by (auto simp: turn)
  obtain vws where vws: "turn_views p ts fs turn = (vws, b)" by (simp add: turn turn_views_def)
  obtain outs2 st2 evs2 where rest: "watch_loop G p name (map (turn_views p ts fs) turns) (if starts_reload name b then ?st else st) =
      (outs2, st2, evs2)" by (metis prod_cases3)
  with Cons.prems(5) step have eqs: "st' = st2" "evs = evs1 @ evs2" by (simp_all add: vws)
  note rest = rest [folded eqs(1)] and evs = eqs(2)
  show ?case
  proof (cases "starts_reload name b")
    case True
    have "counter_total MMDB_FILE_LOADED evs2 = card (set (observed name turns) - {k}) \<and>
        (\<exists>k. snapshot st' = Some \<lparr>reader = rd, modified = Some (stamp f ts k)\<rparr>)"
      by (rule Cons.IH [OF le(2,3,5) _ rest [simplified True if_True]]) simp
    moreover have "observed name (turn # turns) = k # observed name turns" using True by (simp add: observed_def turn)
    moreover have "\<forall>l\<in>set (observed name turns). k \<le> l" using le(3) by (auto simp: observed_def)
    then have "k0 < k \<Longrightarrow> card (set (k # observed name turns) - {k0}) = Suc (card (set (observed name turns) - {k}))"
      by (rule card_insert_above)
    ultimately show ?thesis using one True le(1) by (cases "k = k0") (simp_all add: evs)
  next
    case False
    have "counter_total MMDB_FILE_LOADED evs2 = card (set (observed name turns) - {k0}) \<and>
        (\<exists>k. snapshot st' = Some \<lparr>reader = rd, modified = Some (stamp f ts k)\<rparr>)"
      by (rule Cons.IH [OF Cons.prems(1) le(4,5) Cons.prems(4)]) (use rest False in simp)
    moreover have "observed name (turn # turns) = observed name turns" using False by (simp add: observed_def turn)
    ultimately show ?thesis using one False by (simp add: evs)
  qed
qed

subsection \<open>The wait's result\<close>

lemma wait_loop_returns:
  assumes "wait_loop obs before touches deadline i = Some now"
  shows "touches \<le> ct_loads (counters_since now before) \<or> (\<exists>j. deadline \<le> snd (obs j))"
proof (rule wait_loop.raw_induct [where
      P = "\<lambda>obs before touches deadline i now.
        touches \<le> ct_loads (counters_since now before) \<or> (\<exists>j. deadline \<le> snd (obs j))",
      OF _ assms])
  fix loop and obs :: "nat \<Rightarrow> counters \<times> nat" and before touches deadline i now
  assume IH: "\<And>obs before touches deadline i now. loop obs before touches deadline i = Some now \<Longrightarrow>
      touches \<le> ct_loads (counters_since now before) \<or> (\<exists>j. deadline \<le> snd (obs j))"
    and run: "(case obs i of (now, clock) \<Rightarrow>
        if touches \<le> ct_loads (counters_since now before) \<or> deadline \<le> clock then Some now
        else loop obs before touches deadline (i + 1)) = Some now"
  obtain seen clock where "obs i = (seen, clock)" by fastforce
  with run IH [of obs before touches deadline "i + 1" now]
  show "touches \<le> ct_loads (counters_since now before) \<or> (\<exists>j. deadline \<le> snd (obs j))"
    by (auto split: if_splits intro: exI [of _ i])
qed

section \<open>Properties\<close>

text \<open>
  C24. Hot reloads are counted exactly and disturb nothing. While the benchmark touches a database file whose content
  does not change, the watcher loads it once for every different number of touches after which a relevant batch
  finds it, however batches merge or repeat: never more often than it was touched, and as often exactly when
  every touch was seen. Every lookup is answered as before.
\<close>

theorem hot_reload_loads_exact:
  assumes "fs p = Some f" "g_from_bytes G (file_content f) = Ok rd" "distinct (file_mtime f # ts)"
    and "snapshot st = Some \<lparr>reader = rd, modified = Some (file_mtime f)\<rparr>"
    and "sorted (map (fst \<circ> fst) turns)" "\<forall>turn\<in>set turns. fst (fst turn) \<le> length ts"
    and "watch_loop G p name (map (turn_views p ts fs) turns) st = (outs, st', evs)"
  shows "counter_total MMDB_FILE_LOADED evs = card (set (observed name turns) - {0}) \<and>
    counter_total MMDB_FILE_LOADED evs \<le> length ts \<and>
    (counter_total MMDB_FILE_LOADED evs = length ts \<longleftrightarrow> {1..length ts} \<subseteq> set (observed name turns)) \<and>
    find_entry G st' = find_entry G st"
proof -
  let ?seen = "set (observed name turns) - {0}"
  have "snapshot st = Some \<lparr>reader = rd, modified = Some (stamp f ts 0)\<rparr>" using assms(4) by (simp add: stamp_def)
  from touched_loop [of fs p f G rd ts 0 turns st name outs st' evs, OF assms(1-3) _ _ assms(5) this assms(7)] assms(6)
  obtain k where loads: "counter_total MMDB_FILE_LOADED evs = card ?seen"
    and st': "snapshot st' = Some \<lparr>reader = rd, modified = Some (stamp f ts k)\<rparr>"
    by auto
  have sub: "?seen \<subseteq> {1..length ts}" using assms(6) by (fastforce simp: observed_def)
  then have "card ?seen \<le> length ts" using card_mono [OF finite_atLeastAtMost sub] by simp
  moreover have "card ?seen = length ts \<longleftrightarrow> {1..length ts} \<subseteq> set (observed name turns)"
  proof
    assume "card ?seen = length ts"
    then have "?seen = {1..length ts}" by (intro card_subset_eq [OF finite_atLeastAtMost sub]) simp
    then show "{1..length ts} \<subseteq> set (observed name turns)" by blast
  next
    assume "{1..length ts} \<subseteq> set (observed name turns)"
    then have "?seen = {1..length ts}" using sub by auto
    then show "card ?seen = length ts" by simp
  qed
  moreover have "find_entry G st' = find_entry G st"
    by (rule ext) (simp add: find_entry_snapshot [OF st'] find_entry_snapshot [OF assms(4)])
  ultimately show ?thesis by (simp only: loads)
qed

definition touched_sample :: "touched_turn list" where
  "touched_sample = [((1, 1), Inr [[''f.mmdb'']]), ((1, 2), Inr [[''f.mmdb'']]), ((2, 2), Inr [[''f.mmdb'']])]"

theorem hot_reload_loads_exact_witness:
  "\<exists>outs st' evs. watch_loop ref_geoip [''firehol.mmdb''] ''f.mmdb''
      (map (turn_views [''firehol.mmdb''] [6, 7] (tiny_fs 5)) touched_sample)
      \<lparr>snapshot = Some \<lparr>reader = Node (Leaf None) (Leaf (Some default_entry)), modified = Some 5\<rparr>\<rparr> = (outs, st', evs) \<and>
    counter_total MMDB_FILE_LOADED evs = 2"
proof -
  let ?f = "\<lparr>file_content = tiny_db, file_mtime = 5\<rparr>"
  let ?st = "\<lparr>snapshot = Some \<lparr>reader = Node (Leaf None) (Leaf (Some default_entry)), modified = Some 5\<rparr>\<rparr>"
  obtain outs st' evs where run: "watch_loop ref_geoip [''firehol.mmdb''] ''f.mmdb''
      (map (turn_views [''firehol.mmdb''] [6, 7] (tiny_fs 5)) touched_sample) ?st = (outs, st', evs)"
    by (metis prod_cases3)
  have seen: "set (observed ''f.mmdb'' touched_sample) - {0} = {1, 2}"
    by (auto simp: observed_def touched_sample_def starts_reload_def batch_relevant_def path_file_name_def)
  have "tiny_fs 5 [''firehol.mmdb''] = Some ?f" by (simp add: tiny_fs_def)
  from hot_reload_loads_exact [of "tiny_fs 5" "[''firehol.mmdb'']" ?f, OF this _ _ _ _ _ run] tiny_db_readable seen
  show ?thesis using run by (simp add: touched_sample_def)
qed

text \<open>
  The toucher keeps its pace: on a monotone clock whose turns last at most \<open>d\<close>, it ends by the first turn that
  finds the stop flag set; the touches it counts lie at least one interval apart, and as long as no touch fails none
  is late by more than \<open>2 d\<close>, so that the time run determines their number.
\<close>

theorem toucher_pace:
  assumes "steady start obs d" "tt_stop (obs k)"
  shows "\<exists>m e j. toucher_run start obs = Some (of_nat m, e, j) \<and> j \<le> k \<and>
    (0 < m \<longrightarrow> 0 < j \<and> start + m * TOUCH_INTERVAL \<le> tt_again (obs (j - 1))) \<and>
    (e = None \<longrightarrow> turn_start start obs j < start + m * (TOUCH_INTERVAL + 2 * d) + TOUCH_INTERVAL)"
proof -
  have "turn_start start obs 0 < start + TOUCH_INTERVAL" by (simp add: turn_start_def TOUCH_INTERVAL_def)
  from touch_loop_bounds [OF assms(1,2) _ this, of 0] show ?thesis by (simp add: toucher_run_def)
qed

definition pace_sample :: "nat \<Rightarrow> touch_turn" where
  "pace_sample i = \<lparr>tt_stop = (i = 100), tt_now = (i + 1) * 20000000, tt_again = (i + 1) * 20000000, tt_touch = Inr ()\<rparr>"

theorem toucher_pace_witness:
  "\<exists>m e j. toucher_run 0 pace_sample = Some (of_nat m, e, j) \<and> j \<le> 100 \<and> m \<le> 2"
proof -
  have "steady 0 pace_sample 20000000" by (auto simp: steady_def turn_start_def pace_sample_def)
  then obtain m e j where "toucher_run 0 pace_sample = Some (of_nat m, e, j)" "j \<le> 100"
    "0 < m \<longrightarrow> 0 < j \<and> m * TOUCH_INTERVAL \<le> tt_again (pace_sample (j - 1))"
    using toucher_pace [of 0 pace_sample 20000000 100] by (auto simp: pace_sample_def)
  moreover from this have "m \<le> 2" by (cases "m = 0"; cases j) (simp_all add: pace_sample_def TOUCH_INTERVAL_def)
  ultimately show ?thesis by blast
qed

text \<open>
  C40. The report of a concurrent benchmark is fully accounted for over all its batches: it counts as many answers as
  requests were issued unless a connection failed, never more, and each connection fails at most once per batch; blocked answers are
  answers; the measured time is the sum of the batches' times. It is printed only when something was answered. With
  hot reloads it waited until as many reloads as touches were counted or five seconds had passed.
\<close>

theorem benchmark_accounts:
  assumes "concurrent_case E T latency wl hot V bs n = Some (Reported s counted touches)"
    and "0 < n" "n < 2 ^ 64" "list_all (\<lambda>(_, arrival, _). mset arrival = mset [0..<n]) bs"
  shows "\<exists>answers errors blocked.
    sm_count s = of_nat answers \<and> sm_errors s = of_nat errors \<and> sm_blocked s = of_nat blocked \<and>
    0 < answers \<and> blocked \<le> answers \<and> answers \<le> requests_of bs \<and> errors \<le> n * length bs \<and>
    (errors = 0 \<longrightarrow> answers = requests_of bs) \<and>
    sm_measured s = sum_list (map fst bs) \<and>
    (case touches of
       None \<Rightarrow> \<not> hot \<and> counted = counters_since (cv_after V) (cv_before V)
     | Some t \<Rightarrow> hot \<and> t = cv_touches_after V - cv_touches_before V \<and>
         (t \<le> ct_loads counted \<or> (\<exists>j. cv_wait_start V + TIMEOUT \<le> snd (cv_wait V j))))"
proof -
  from assms(1) obtain ws ws' where start: "workers_start E T n wl = Ok ws"
    and run: "run_batches E latency bs ws empty_summary = Some (ws', s)" and some: "sm_count s \<noteq> 0"
    by (auto simp: concurrent_case_def Let_def split: sum.splits option.splits if_splits)
  from workers_start_fresh [OF start] assms(2-4) obtain a e b where totals:
    "sm_count s = of_nat a" "sm_errors s = of_nat e" "sm_blocked s = of_nat b" "b \<le> a" "a \<le> requests_of bs"
    "e \<le> n * length bs" "e = 0 \<longrightarrow> a = requests_of bs" "sm_measured s = sum_list (map fst bs)"
    using run_batches_total [OF run] by (auto simp: empty_summary_def)
  moreover have "0 < a" using some totals(1) by (cases a) auto
  moreover have "case touches of
       None \<Rightarrow> \<not> hot \<and> counted = counters_since (cv_after V) (cv_before V)
     | Some t \<Rightarrow> hot \<and> t = cv_touches_after V - cv_touches_before V \<and>
         (t \<le> ct_loads counted \<or> (\<exists>j. cv_wait_start V + TIMEOUT \<le> snd (cv_wait V j)))"
    using assms(1) start run some
    by (auto simp: concurrent_case_def Let_def wait_for_reloads_def dest: wait_loop_returns
        split: if_splits option.splits)
  ultimately show ?thesis by blast
qed

text \<open>An agent that greets and blocks the first address it is asked about.\<close>

definition greeting :: bytes where
  "greeting = [FRAME_AGENT_HELLO, 0, 0, 0, 1, 0, 0]"

definition sample_tcp :: "u64 \<Rightarrow> tcp_answers" where
  "sample_tcp sid = \<lparr>tcp_connect = Ok (framed greeting @ framed (ack_body 1 1 True), None), tcp_nodelay = Ok (),
     tcp_read_timeout = Ok (), tcp_write_timeout = Ok ()\<rparr>"

definition sample_view :: case_view where
  "sample_view = (let c = \<lparr>ct_allowed = 0, ct_blocked = 0, ct_loads = 0\<rparr>
     in \<lparr>cv_before = c, cv_after = c\<lparr>ct_blocked := 1\<rparr>, cv_touches_before = 0, cv_touches_after = 0,
         cv_wait_start = 0, cv_wait = (\<lambda>i. (c, i))\<rparr>)"

lemma sample_connected:
  "\<exists>w. connect (\<lambda>_. [6]) (sample_tcp 1) 1 =
    Ok \<lparr>stream_id = 1, next_frame_id = 1, to_read = framed (ack_body 1 1 True), written = w, write_error = None\<rparr>"
  by (simp add: connect_def sample_tcp_def handshake_def write_all_def greeting_def
      read_framed [where rest = "framed (ack_body 1 1 True)" and body = greeting, unfolded greeting_def])

lemma sample_reported:
  "\<exists>s c t. concurrent_case (\<lambda>_. [6]) sample_tcp (\<lambda>_. 30) (Fixed [V4 1]) False sample_view [(40, [0], 1)] 1 =
    Some (Reported s c t) \<and> sm_errors s = 0"
proof -
  obtain w where w: "connect (\<lambda>_. [6]) (sample_tcp 1) 1 =
      Ok \<lparr>stream_id = 1, next_frame_id = 1, to_read = framed (ack_body 1 1 True), written = w, write_error = None\<rparr>"
    using sample_connected by blast
  let ?c = "\<lparr>stream_id = 1, next_frame_id = 1, to_read = framed (ack_body 1 1 True), written = w, write_error = None\<rparr>"
  obtain a c where "check_ip (\<lambda>_. [6]) (V4 1) ?c = (Ok a, c)"
    by (auto simp: check_ip_def Let_def write_all_def read_ack [where rest = "[]", simplified] decode_ack_body)
  then show ?thesis
    by (simp add: concurrent_case_def workers_start_def w new_worker_def workers_run_def shares_def Let_def
        record_reply_def tally_def default_report_def RESERVOIR_def merge_def empty_summary_def)
qed

theorem benchmark_accounts_witness:
  "\<exists>s c t. concurrent_case (\<lambda>_. [6]) sample_tcp (\<lambda>_. 30) (Fixed [V4 1]) False sample_view [(40, [0], 1)] 1 =
    Some (Reported s c t) \<and> sm_count s = 1 \<and> sm_measured s = 40"
proof -
  obtain s c t where run: "concurrent_case (\<lambda>_. [6]) sample_tcp (\<lambda>_. 30) (Fixed [V4 1]) False sample_view [(40, [0], 1)] 1 =
    Some (Reported s c t)" "sm_errors s = 0"
    using sample_reported by blast
  from benchmark_accounts [OF run(1)] obtain a e :: nat where "sm_count s = of_nat a" "sm_errors s = of_nat e"
    "0 < a" "a \<le> 1" "sm_measured s = 40"
    by (auto simp: requests_of_def)
  then have "sm_count s = 1" by (cases a) auto
  with run(1) \<open>sm_measured s = 40\<close> show ?thesis by blast
qed

end
