(* ===== verification/Spec2Isabelle.thy ===== *)
theory Spec2Isabelle
  imports Convergence Build_Script Listeners Watcher_Life Load_Lock Database_Tests Bench_Run
begin

text \<open>
  An HAProxy SPOE agent that flags client addresses listed in the FireHOL blocklists, modelled
  from its Rust sources. The agent keeps a clone of the FireHOL repository, compiles the
  selected list files of the newest commit into one MaxMind database, hot-swaps that database while
  it serves, and answers HAProxy's \<open>check-client-ip\<close> messages with the boolean variable
  \<open>ip_bad\<close>. A run of \<open>main.rs\<close> loads the database found at start, watches its
  directory, opens the metrics endpoint, updates once, schedules further updates, and only then
  opens the SPOE listener.

  Theories, in the order of the dependencies, and the sources they model:

  \<^item> \<open>Prelude\<close>, \<open>Rust_Str\<close>, \<open>Net_Addr\<close>, \<open>Fs\<close>: what the sources use of Rust's
    standard library: \<open>Result\<close> (a sum, \<open>Inl\<close> the error), iterators, the methods of
    \<open>str\<close> (a list of UTF-8 bytes), the address parsers and printers, paths, files with
    content and modification time, and the system calls on them with injected faults.
  \<^item> \<open>Interfaces\<close>: the crates \<open>ipnet\<close>, \<open>chrono\<close>, \<open>mmdb_writer\<close> and \<open>geoip2\<close> as
    records of functions, with their documented laws as the locales \<open>ipnet_laws\<close>,
    \<open>mmdb_writer\<close> and \<open>mmdb_format\<close>. \<open>Codec\<close> (locale \<open>prefix_codec\<close>) and
    \<open>Reference\<close> build executable instances of them: a search tree, its encoding in bytes and
    its reader, on which all the locales are interpreted.
  \<^item> \<open>Ipset\<close> (\<open>firehol/ipset.rs\<close>): the list parser: its line loop as a fold over a record of the
    parser's mutable variables, header keys, sections and both errors with the line number.
  \<^item> \<open>Builder\<close> (\<open>firehol/builder.rs\<close>): records, the three nested insertion loops with deep merge,
    serialisation, and the temporary file with its fsync, rename and clean-up as a list of system
    calls. The locale \<open>atomic_replacer\<close> is the contract of the replacement.
  \<^item> \<open>Git\<close> (\<open>firehol/git.rs\<close>): open or clone, fetch, remote tip and checkout over an abstract
    git2 world, with the locale \<open>git_laws\<close>, from which the contract \<open>blocklist_source\<close>
    follows by a sublocale; \<open>Git_Reference\<close> interprets it on a world of commits, refs and a
    working tree. \<open>Tree_Walk\<close> and \<open>Firehol\<close> (\<open>firehol/mod.rs\<close>): the recursive selection of
    files with its mutable prefix, and one run of the updater with every early return.
  \<^item> \<open>Metrics\<close> (\<open>metrics.rs\<close>), \<open>Mmdb\<close> (\<open>mmdb.rs\<close>, locale \<open>database_store\<close>),
    \<open>Mmdb_Watcher\<close> (\<open>mmdb_watcher.rs\<close>) and \<open>Spoa\<close> (the handler of \<open>spoa.rs\<close>): the
    metrics as a trace of updates, the snapshot with its load and reload, the watcher's start and
    loop, and the request handler with all its early returns.
  \<^item> \<open>Cli\<close> (\<open>cli.rs\<close>) and \<open>Agent\<close> (\<open>main.rs\<close>): options and log levels, \<open>run_update\<close>, the
    scheduled update, and the life of the process from start-up to the orderly stop.
    \<open>Listeners\<close> (\<open>metrics_server.rs\<close> and the rest of \<open>spoa.rs\<close>): opening the sockets, and the
    accept loop as an endless stream.
  \<^item> \<open>Hot_Reload\<close>, \<open>System\<close> and \<open>Convergence\<close>: step relations in which reloads, the
    updater's system calls, panicking tasks, crashes and restarts interleave; a reload is two steps,
    the stamp and then the content, under the load lock. \<open>Load_Lock\<close> (\<open>Mmdb::lock\<close>): any number
    of threads under that lock, which a panic poisons. \<open>Watcher_Life\<close>
    (\<open>MmdbWatcher::stop\<close> and the task it ends): the channel, the task, its reload on a blocking thread, and the
    three calls of \<open>stop\<close> as interleaved steps.
  \<^item> \<open>Display\<close> (\<open>display.rs\<close>) and \<open>Build_Script\<close> (\<open>build.rs\<close>): log formatting and the
    embedded version.
  \<^item> \<open>Spop_Client\<close>, \<open>Workload\<close>, \<open>Fixture\<close>, \<open>Load_Generator\<close>, \<open>Bench_Agent\<close> and
    \<open>Bench_Run\<close> (\<open>client.rs\<close>, \<open>workload.rs\<close>, \<open>fixture.rs\<close> and \<open>main.rs\<close> under
    \<open>benches/spoe/\<close>): the SPOP client that checks the agent from HAProxy's side, the SplitMix64 generator and
    the workloads, the synthetic database, the workers with their statistics, with 64-bit words throughout; the in-process
    agent from the choice of its database to its drop, composed of the program's own store, listener, watcher and filter; and the
    benchmark loops with the thread that touches the database file.
  \<^item> \<open>Test_Util\<close> (\<open>test_util.rs\<close>), \<open>Unit_Tests\<close> and \<open>Database_Tests\<close> (the \<open>tests\<close> modules): the
    repository's unit tests as boolean functions of the model.

  What is proved. The parser's result is the sequence of networks with the header in force at their
  line (\<open>parse_meaning\<close>), the tree holds per address the rows of all covering lists
  (\<open>insert_ipsets_rows\<close>), and both survive serialisation; one run of the updater is skipped,
  fails or rebuilds under exactly stated conditions and never leaves a torn file; the handler's
  answers, counters and attribution follow the database. This file composes them: after a
  rebuild, requests are answered exactly as the published commit's lists say. \<open>System\<close> shows
  that no interleaving serves a torn database, \<open>Convergence\<close> that the watcher always catches up,
  \<open>Load_Lock\<close> that concurrent reloads of a file at rest load it once and no panic wedges the lock,
  \<open>Watcher_Life\<close> that stopping the watcher ends, leaving at most the one reload that was running. The
  repository's benchmark serves what it announces (\<open>fixture_serves_synthetic\<close>, \<open>lookup_benchmark_cases\<close>), leaves no file
  behind (\<open>fixture_keeps_files\<close>), counts every request (\<open>benchmark_accounts\<close>) and every reload
  (\<open>hot_reload_loads_exact\<close>). Its unit tests hold of the model: those of the database for every writer and reader that agree
  on the format (\<open>database_tests_pass\<close>), the others by evaluation (\<open>unit_tests_pass\<close>).

  Termination, fuel and bounds. Three loops of the benchmark need not end and are partial functions: the draw of
  distinct networks ends exactly when there are enough of them, since SplitMix64 visits all \<open>2\<^sup>64\<close> words
  (\<open>random_networks_terminates\<close>), the wait for reloads ends within 101 turns of a clock that advances
  (\<open>wait_for_reloads_ends\<close>), and the toucher ends with the first turn that finds its stop flag set
  (\<open>toucher_pace\<close>). The trie decoder of \<open>Reference\<close> has fuel 33, enough for trees of the 32 address
  bits; the sequence decoder has the length of its input. Everything else terminates by structure or
  a measure. A variable-length integer has at most ten bytes, a pipelined batch at most 64 requests,
  one per bit of the mask. Commit times and modification times are 64-bit seconds.

  Assumptions beyond the laws of the locales. Only the updater writes the database file in
  \<open>System\<close>, and in \<open>Hot_Reload\<close> and \<open>Convergence\<close> every new version of the file has a
  later modification time than the versions before it. The update lock excludes overlapping runs, so
  a second run begins only when no system call of the first is left. rayon's parallel map keeps the
  order. Checking out writes the blobs of the commit unfiltered. Error contexts are constructors
  with the values the messages show.

  Not modelled: the text of log messages and spans, clap's parsing of arguments and environment, the
  tokio runtime, TLS and the network transports, the protocol loop of the SPOP library, chrono's calendar, and
  of the benchmarks Criterion's choice of iterations, the printed text of the report and the profiler hook. The 64-bit floats
  of the benchmark's percentiles are exact rationals. The library root only declares modules.
\<close>

section \<open>Properties\<close>

text \<open>
  C1. End to end: after an update that rebuilt the database, the database is loaded and the verdict on
  every address, and with it the answer to every request, is exactly what the lists of the commit that the remote publishes say: it is dropped
  when some selected list file of the commit's tree names a network that covers it, under a header
  with a dropped category or in a file with a dropped name, and no IPv6 address is dropped. The
  loaded snapshot must not carry the new file's modification time already.
\<close>

theorem update_then_verdict:
  assumes "git_laws (git2 K) upstream remote_url workdir"
    and "mmdb_format (writer K) covers content (geoip K)"
    and "update_and_build_mmdb (ipnet K) (chrono K) (writer K) (git2 K) u (at_lock mo) (at_stat mo)
      (at_faults mo) (at_time mo) p w = (Ok True, w', ops)"
    and "at_reload mo = (view_of (run_ops fs ops), view_of (run_ops fs ops))"
    and "\<forall>s. snapshot st = Some s \<longrightarrow> modified s \<noteq> Some (at_time mo)"
    and "CHR '':'' \<notin> set (repo_branch (repo u))"
  shows "\<exists>tip tree st' evs.
    run_update K u mo p w st = (Ok (), w', ops, st', evs) \<and>
    upstream (effective_url (git2 K) remote_url (repo u) w) (repo_branch (repo u)) =
      Some (commit_id (git2 K) tip) \<and>
    commit_tree (git2 K) tip = Ok tree \<and>
    (\<forall>ip. fst (should_drop (geoip K) flt st' ip) \<longleftrightarrow>
       listed (ipnet K) (chrono K) covers flt (ignore_country u) tree ip) \<and>
    (\<exists>evs'. handle S (geoip K) flt st' req =
       (case request_ip S req of
          Inl out \<Rightarrow> (out, req, [])
        | Inr ip \<Rightarrow>
            (let drop = listed (ipnet K) (chrono K) covers flt (ignore_country u) tree ip
             in (Answered ip drop, set_var S req Session ''ip_bad'' (TD_Boolean drop), evs'))))"
proof -
  obtain rep w1 tip m tree files n where run:
    "open_or_clone (git2 K) (repo u) w = (Inr rep, w1)" "remote_tip (git2 K) (repo u) rep w1 = Inr tip"
    "checkout (git2 K) (repo u) rep tip w1 = (Inr (), w')" "commit_tree (git2 K) tip = Inr tree"
    "collect_ipset_files (ignore_country u) tree = Inr files"
    "write_mmdb (writer K) (at_faults mo) (at_time mo) (parse_files (ipnet K) (chrono K) (git2 K) u w' files)
      (nat (commit_seconds (git2 K) tip)) p = (Inr n, ops)"
    using assms(3) by (blast elim: update_True_cases)
  let ?ipsets = "parse_files (ipnet K) (chrono K) (git2 K) u w' files"
  have files: "files = selected_paths (ignore_country u) (tree_blobs tree)"
    by (rule collected_selected [OF run(5)])
  have blobs: "\<forall>(rel, bs)\<in>set (tree_blobs tree). read_file (git2 K) w' (repo_path (repo u) @ rel) = Inr bs"
    using git_laws.checkout_files [OF assms(1) run(1,3)] run(4) by (auto simp: commit_blobs_def)
  from write_mmdb_Ok_file [OF run(6), of fs] obtain bs where
    ser: "serialise (writer K) (nat (commit_seconds (git2 K) tip)) ?ipsets = Ok bs" and
    on_disk: "run_ops fs ops p = Some \<lparr>file_content = bs, file_mtime = at_time mo\<rparr>"
    by blast
  obtain st' evs where upd: "run_update K u mo p w st = (Ok (), w', ops, st', evs)"
    by (rule run_update_loads [OF assms(2-5)])
  have "reload_if_changed (geoip K) (view_of (run_ops fs ops)) (view_of (run_ops fs ops)) p st =
      (Inr True, st', evs)"
    by (rule rebuilt_reloaded [OF assms(3) upd assms(4,5) on_disk])
  then obtain rd where "g_from_bytes (geoip K) bs = Inr rd"
    "st' = st\<lparr>snapshot := Some \<lparr>reader = rd, modified = Some (at_time mo)\<rparr>\<rparr>"
    using on_disk by (auto simp: reload_True_iff load_locked_Ok_iff)
  then obtain sn where sn: "snapshot st' = Some sn" "g_from_bytes (geoip K) bs = Inr (reader sn)"
    by (intro that [of "\<lparr>reader = rd, modified = Some (at_time mo)\<rparr>"]) simp_all
  have verdict: "fst (should_drop (geoip K) flt st' ip) \<longleftrightarrow>
      listed (ipnet K) (chrono K) covers flt (ignore_country u) tree ip" for ip
    by (rule loaded_verdict [OF assms(2) ser [unfolded files] sn blobs])
  have "\<exists>evs'. handle S (geoip K) flt st' req =
       (case request_ip S req of
          Inl out \<Rightarrow> (out, req, [])
        | Inr ip \<Rightarrow>
            (let drop = listed (ipnet K) (chrono K) covers flt (ignore_country u) tree ip
             in (Answered ip drop, set_var S req Session ''ip_bad'' (TD_Boolean drop), evs')))"
    by (rule handle_verdict [OF verdict])
  with verdict show ?thesis
    using git_laws.remote_tip_upstream [OF assms(1) run(1,2) assms(6)] run(4) upd by blast
qed

theorem update_then_verdict_witness:
  "\<exists>w' ops st evs.
    run_update sample_crates sample_updater sample_moment [''db'', ''f.mmdb''] None mmdb_new = (Ok (), w', ops, st, evs) \<and>
    req_vars (fst (snd (handle ref_spoe ref_geoip (cli_filter sample_cli) st (check_request ''10.1.2.3'')))) =
      [(Session, ''ip_bad'', TD_Boolean True)] \<and>
    \<not> fst (should_drop ref_geoip (cli_filter sample_cli) st (V4 0x0B010203))"
proof -
  obtain w' ops st0 evs0 where run:
    "update_and_build_mmdb (ipnet sample_crates) (chrono sample_crates) (writer sample_crates)
      (git2 sample_crates) sample_updater (at_lock sample_moment) (at_stat sample_moment)
      (at_faults sample_moment) (at_time sample_moment) [''db'', ''f.mmdb''] None = (Ok True, w', ops)"
    "at_reload sample_moment = (view_of (run_ops (\<lambda>_. None) ops), view_of (run_ops (\<lambda>_. None) ops))"
    "run_update sample_crates sample_updater sample_moment [''db'', ''f.mmdb''] None mmdb_new =
      (Ok (), w', ops, st0, evs0)"
    by (rule sample_update_loads)
  have laws: "git_laws (git2 sample_crates) sample_upstream (\<lambda>url. url) (\<lambda>p. p)"
    "mmdb_format (writer sample_crates) cidr_covers ref_content (geoip sample_crates)"
    "CHR '':'' \<notin> set (repo_branch (repo sample_updater))"
    using ref_git.git_laws_axioms ref_format.mmdb_format_axioms by simp_all
  have new: "\<forall>s. snapshot mmdb_new = Some s \<longrightarrow> modified s \<noteq> Some (at_time sample_moment)"
    by (simp add: mmdb_new_def)
  have url: "effective_url (ref_git sample_upstream) (\<lambda>url. url) (repo sample_updater) None = ''lists.git''"
    by code_simp
  have lists: "blocked_by ref_ipnet ref_chrono cidr_covers (cli_filter sample_cli) True sample_tree 0x0A010203"
    "\<not> blocked_by ref_ipnet ref_chrono cidr_covers (cli_filter sample_cli) True sample_tree 0x0B010203"
    by code_simp+
  have ip: "parse_ip_addr ''10.1.2.3'' = Some (V4 0x0A010203)" by code_simp
  from update_then_verdict [OF laws(1,2) run(1,2) new laws(3), of "cli_filter sample_cli" ref_spoe "check_request ''10.1.2.3''"]
  obtain tip tree st evs evs' where res:
    "run_update sample_crates sample_updater sample_moment [''db'', ''f.mmdb''] None mmdb_new =
      (Ok (), w', ops, st, evs)"
    "sample_upstream ''lists.git'' ''master'' = Some tip" "tree = rg_tree tip"
    "\<forall>ip. fst (should_drop ref_geoip (cli_filter sample_cli) st ip) \<longleftrightarrow>
       listed ref_ipnet ref_chrono cidr_covers (cli_filter sample_cli) True tree ip"
    "handle ref_spoe ref_geoip (cli_filter sample_cli) st (check_request ''10.1.2.3'') =
       (let drop = listed ref_ipnet ref_chrono cidr_covers (cli_filter sample_cli) True tree (V4 0x0A010203)
        in (Answered (V4 0x0A010203) drop,
            set_var ref_spoe (check_request ''10.1.2.3'') Session ''ip_bad'' (TD_Boolean drop), evs'))"
    by (auto simp: url request_ip_check ip)
  from res(2,3) have "tree = sample_tree" by (auto simp: sample_upstream_def)
  with res(4,5) lists show ?thesis
    by (intro exI [of _ w'] exI [of _ ops] exI [of _ st] exI [of _ evs] conjI)
       (use res(1) in \<open>simp_all add: listed_def Let_def set_var_check\<close>)
qed

end
